theory Spec2Isabelle
  imports Main "HOL-Library.AList"
begin

section \<open>Data model\<close>

text \<open>
  The nested table of \<^verbatim>\<open>components/Table/index.tsx\<close> (the \<^verbatim>\<open>upstream/main\<close> side of the
  file). Exceptions of the JavaScript run time are values: \<open>TypeError\<close> is a property
  read on \<^verbatim>\<open>undefined\<close>, \<open>RangeError\<close> is \<^verbatim>\<open>Array(n)\<close> at a negative \<open>n\<close>, \<open>SyntaxError\<close> is
  a regular expression that does not parse, and \<open>InvalidDataError\<close> is the
  \<^verbatim>\<open>throw new Error(INVALID_DATA_ERROR_MESSAGE)\<close> of \<^verbatim>\<open>Table\<close>.
\<close>

datatype error = TypeError | RangeError | SyntaxError | InvalidDataError

text \<open>
  The value of a property of a row as a column shows it: \<^verbatim>\<open>undefined\<close>, \<^verbatim>\<open>null\<close>, or
  any other value, kept as a text.
\<close>

datatype cell = Undefined | Null | Content string

text \<open>
  A row object (\<^verbatim>\<open>FormattedDataType\<close>, and the raw type metadata it nests: the source
  reads both through the same properties). The properties \<open>key\<close>, \<open>isExpandable\<close> and
  \<open>content\<close> are there in every row; \<open>name\<close>, \<open>kind\<close>, \<open>typeMetadata\<close> and \<open>children\<close> are
  optional (\<open>None\<close> is \<^verbatim>\<open>undefined\<close>); \<open>title\<close> is \<^verbatim>\<open>content.title\<close>, optional too. \<open>cells\<close>
  are the other own properties of the object in property order, each with its value; a
  property can be there with the value \<^verbatim>\<open>undefined\<close>.
\<close>

datatype item = Item
  (key: string)
  (name: "string option")
  (kind: "string option")
  (isExpandable: bool)
  (title: "string option")
  (cells: "(string \<times> cell) list")
  (typeMetadata: "item option")
  (children: "item list option")

text \<open>
  The constants that \<^verbatim>\<open>index.tsx\<close> reads from its constants module. The module is not
  among the sources, so the functions below take the constants as a parameter.
\<close>

record constants =
  ARRAY_KIND :: string
  MAP_KIND :: string
  ARRAY_LABEL :: string
  ARRAY_OPENER :: string
  ARRAY_CLOSER :: string
  MAP_LABEL :: string
  MAP_OPENER :: string
  MAP_CLOSER :: string
  MAP_KEY_NAME :: string
  MAP_VALUE_NAME :: string
  MAP_KEY_DISPLAY_NAME :: string
  MAP_VALUE_DISPLAY_NAME :: string
  COLUMN_NAME_REGEX :: string
  TYPE_METADATA_REGEX :: string

text \<open>A column of the schema (\<^verbatim>\<open>TableColumn\<close>): its title and the field it shows.\<close>

record tableColumn =
  colTitle :: string
  field :: string

text \<open>
  The elements that \<^verbatim>\<open>getTableRows\<close> puts into its array: a \<^verbatim>\<open>TableRow\<close> with its
  \<^verbatim>\<open>rowValues\<close> and \<^verbatim>\<open>nestedLevel\<close>, an opener row (React key of the unwrapped row, the two
  labels in the order of the markup, the nesting level of its padding, the number of
  placeholder cells), a closer row (likewise), or \<^verbatim>\<open>null\<close> (\<open>None\<close> in the list).
\<close>

datatype node =
  TableRow item nat
  | OpenerRow string string string nat nat
  | CloserRow string string string nat nat

text \<open>The result of \<^verbatim>\<open>handleSpecificTypeRowData\<close>.\<close>

record specificTypeRowData =
  rowValuesToDisplay :: item
  formattedChildren :: "item list"
  arrayCount :: nat

text \<open>
  The argument of \<^verbatim>\<open>getTableRows\<close>, without the properties that only reach the markup
  of a row (selection, styles, callbacks, the scroll reference).
\<close>

record tableRowDetails =
  data :: "item list"
  columns :: "tableColumn list"
  expandedRows :: "string list"
  formatChildrenData :: "(item \<Rightarrow> nat \<Rightarrow> item) option"
  nestedLevel :: nat

section \<open>Validation\<close>

text \<open>
  The own enumerable properties of a row, as \<^verbatim>\<open>Object.entries\<close> lists them: the
  properties above that are there, then the others; a name occurs once.
\<close>

definition ownProperties :: "item \<Rightarrow> (string \<times> cell) list" where
  "ownProperties row =
     AList.clearjunk
       ([(''key'', Content (key row))] @
        (case name row of None \<Rightarrow> [] | Some n \<Rightarrow> [(''name'', Content n)]) @
        (case kind row of None \<Rightarrow> [] | Some k \<Rightarrow> [(''kind'', Content k)]) @
        [(''isExpandable'', Content (if isExpandable row then ''true'' else ''false'')),
         (''content'', Content ''[object Object]'')] @
        (case typeMetadata row of
           None \<Rightarrow> []
         | Some tm \<Rightarrow> [(''typeMetadata'', Content ''[object Object]'')]) @
        (case children row of
           None \<Rightarrow> []
         | Some cs \<Rightarrow> [(''children'', Content ''[object Array]'')]) @
        cells row)"

text \<open>The properties that every object inherits from \<^verbatim>\<open>Object.prototype\<close>.\<close>

definition objectPrototype :: "string list" where
  "objectPrototype =
     [''constructor'', ''hasOwnProperty'', ''isPrototypeOf'', ''propertyIsEnumerable'',
      ''toLocaleString'', ''toString'', ''valueOf'', ''__proto__'', ''__defineGetter__'',
      ''__defineSetter__'', ''__lookupGetter__'', ''__lookupSetter__'']"

text \<open>
  \<^verbatim>\<open>row[field]\<close>: the own property of that name, else the inherited one, else
  \<^verbatim>\<open>undefined\<close>.
\<close>

definition getProperty :: "item \<Rightarrow> string \<Rightarrow> cell" where
  "getProperty row f =
     (case map_of (ownProperties row) f of
        Some v \<Rightarrow> v
      | None \<Rightarrow> if f \<in> set objectPrototype then Content ''[inherited]'' else Undefined)"

definition fieldIsDefined :: "string \<Rightarrow> item \<Rightarrow> bool" where
  "fieldIsDefined f row = (getProperty row f \<noteq> Undefined)"

text \<open>The loop over the fields stops at the first one that no row defines.\<close>

fun checkIfValidData :: "item list \<Rightarrow> string list \<Rightarrow> bool" where
  "checkIfValidData rows [] = True"
| "checkIfValidData rows (f # fs) =
     (if \<not> list_ex (fieldIsDefined f) rows then False else checkIfValidData rows fs)"

section \<open>Expansion state\<close>

text \<open>
  \<^verbatim>\<open>ExpandingButton.handleExpandButton\<close>: the new list of expanded keys that the click
  on the button of row \<open>rowKey\<close> passes to \<^verbatim>\<open>setExpandedRows\<close>, and the callbacks it
  fires afterwards (\<open>onExpand\<close> and \<open>onCollapse\<close> say whether the caller supplied one).
\<close>

datatype callback = OnExpand item string | OnCollapse item string

definition isExpanded :: "string list \<Rightarrow> string \<Rightarrow> bool" where
  "isExpanded rows rowKey = (rowKey \<in> set rows)"

definition handleExpandButton ::
  "bool \<Rightarrow> bool \<Rightarrow> item \<Rightarrow> string list \<Rightarrow> string \<Rightarrow> string list \<times> callback list" where
  "handleExpandButton onExpand onCollapse rowValues rows rowKey =
     (let newExpandedRows =
        (if isExpanded rows rowKey then filter (\<lambda>k. k \<noteq> rowKey) rows else rows @ [rowKey])
      in (newExpandedRows,
          (if \<not> isExpanded rows rowKey \<and> onExpand then [OnExpand rowValues rowKey] else []) @
          (if isExpanded rows rowKey \<and> onCollapse then [OnCollapse rowValues rowKey] else [])))"

section \<open>Specific-type unwrapping\<close>

text \<open>\<^verbatim>\<open>xs.map(f)\<close> calls \<open>f\<close> with the element and its index.\<close>

definition mapIndexed :: "('a \<Rightarrow> nat \<Rightarrow> 'b) \<Rightarrow> 'a list \<Rightarrow> 'b list" where
  "mapIndexed f xs = map (\<lambda>(x, i). f x i) (zip xs [0..<length xs])"

text \<open>
  \<^verbatim>\<open>getFormattedChildrenData\<close>: \<^verbatim>\<open>item.children.map\<close> throws when the row has neither
  type metadata nor children.
\<close>

definition getFormattedChildrenData :: "item \<Rightarrow> (item \<Rightarrow> nat \<Rightarrow> item) \<Rightarrow> error + item list" where
  "getFormattedChildrenData row g =
     (case typeMetadata row of
        Some tm \<Rightarrow> Inr (mapIndexed g [tm])
      | None \<Rightarrow>
          (case children row of
             None \<Rightarrow> Inl TypeError
           | Some cs \<Rightarrow> Inr (mapIndexed g cs)))"

text \<open>
  \<^verbatim>\<open>updateMapDisplayNames\<close>: the title of a child named as the key or the value of a map
  becomes the display name; every other child is titled by its name.
\<close>

fun setTitle :: "item \<Rightarrow> string option \<Rightarrow> item" where
  "setTitle (Item k n kd e t cs tm ch) t' = Item k n kd e t' cs tm ch"

definition updateMapDisplayNames :: "constants \<Rightarrow> item list \<Rightarrow> item list" where
  "updateMapDisplayNames c childrenData =
     map (\<lambda>child.
       let displayName =
         (if name child = Some (MAP_KEY_NAME c) then Some (MAP_KEY_DISPLAY_NAME c)
          else if name child = Some (MAP_VALUE_NAME c) then Some (MAP_VALUE_DISPLAY_NAME c)
          else name child)
       in setTitle child displayName) childrenData"

text \<open>
  The \<^verbatim>\<open>while\<close> loop of \<^verbatim>\<open>handleSpecificTypeRowData\<close> over the array layers, from the
  row to display and the count so far to their values after the loop. The formatter is
  the caller's, so the loop need not end: it runs on fuel, and \<open>None\<close> is a loop that
  has not ended when the fuel is spent. \<^verbatim>\<open>formattedChildren[0]\<close> of an empty array is
  \<^verbatim>\<open>undefined\<close>, and reading its \<^verbatim>\<open>isExpandable\<close> throws.
\<close>

fun arrayLayers ::
  "nat \<Rightarrow> constants \<Rightarrow> (item \<Rightarrow> nat \<Rightarrow> item) \<Rightarrow> item \<Rightarrow> nat \<Rightarrow> (error + item \<times> nat) option" where
  "arrayLayers fuel c g row n =
     (if kind row \<noteq> Some (ARRAY_KIND c) then Some (Inr (row, n))
      else
        (case fuel of
           0 \<Rightarrow> None
         | Suc fuel' \<Rightarrow>
             (case getFormattedChildrenData row g of
                Inl e \<Rightarrow> Some (Inl e)
              | Inr [] \<Rightarrow> Some (Inl TypeError)
              | Inr (first # others) \<Rightarrow>
                  if isExpandable first then arrayLayers fuel' c g first (n + 1)
                  else Some (Inr (row, if kind first = Some (ARRAY_KIND c) then n + 2 else n + 1)))))"

definition handleSpecificTypeRowData ::
  "nat \<Rightarrow> constants \<Rightarrow> item \<Rightarrow> (item \<Rightarrow> nat \<Rightarrow> item) \<Rightarrow> (error + specificTypeRowData) option" where
  "handleSpecificTypeRowData fuel c initialRowValues g =
     (let start =
        (case typeMetadata initialRowValues of
           Some tm \<Rightarrow> g tm 0
         | None \<Rightarrow> initialRowValues)
      in
        (case arrayLayers fuel c g start 0 of
           None \<Rightarrow> None
         | Some (Inl e) \<Rightarrow> Some (Inl e)
         | Some (Inr (row, n)) \<Rightarrow>
             if kind row = Some (ARRAY_KIND c)
             then Some (Inr \<lparr>rowValuesToDisplay = row, formattedChildren = [], arrayCount = n\<rparr>)
             else
               (case getFormattedChildrenData row g of
                  Inl e \<Rightarrow> Some (Inl e)
                | Inr cs \<Rightarrow>
                    Some (Inr \<lparr>rowValuesToDisplay = row,
                      formattedChildren =
                        (if kind row = Some (MAP_KIND c) then updateMapDisplayNames c cs else cs),
                      arrayCount = n\<rparr>))))"

text \<open>\<^verbatim>\<open>s.repeat(n)\<close>.\<close>

definition repeat :: "string \<Rightarrow> nat \<Rightarrow> string" where
  "repeat s n = concat (replicate n s)"

text \<open>
  \<^verbatim>\<open>getSpecificTypeOpenerRow\<close> and \<^verbatim>\<open>getSpecificTypeCloserRow\<close>. The placeholder cells
  are \<^verbatim>\<open>[...Array(additionalTableColCount)]\<close>, which throws at a negative count.
\<close>

definition getSpecificTypeOpenerRow ::
  "constants \<Rightarrow> item \<Rightarrow> nat \<Rightarrow> nat \<Rightarrow> int \<Rightarrow> error + node option" where
  "getSpecificTypeOpenerRow c row n level additionalTableColCount =
     (let hasSpecificTypeHandling = (n > 0 \<or> kind row = Some (MAP_KIND c)) in
      if \<not> hasSpecificTypeHandling then Inr None
      else
        let arrayOpenerLabel = (if n > 0 then ARRAY_LABEL c @ repeat (ARRAY_OPENER c) n else []);
            mapOpenerLabel = (if kind row = Some (MAP_KIND c) then MAP_LABEL c @ MAP_OPENER c else [])
        in if additionalTableColCount < 0 then Inl RangeError
           else Inr (Some (OpenerRow (key row) arrayOpenerLabel mapOpenerLabel level
                  (nat additionalTableColCount))))"

definition getSpecificTypeCloserRow ::
  "constants \<Rightarrow> item \<Rightarrow> nat \<Rightarrow> nat \<Rightarrow> int \<Rightarrow> error + node option" where
  "getSpecificTypeCloserRow c row n level additionalTableColCount =
     (let hasSpecificTypeHandling = (n > 0 \<or> kind row = Some (MAP_KIND c)) in
      if \<not> hasSpecificTypeHandling then Inr None
      else
        let arrayCloserLabel = (if n > 0 then repeat (ARRAY_CLOSER c) n else []);
            mapCloserLabel = (if kind row = Some (MAP_KIND c) then MAP_CLOSER c else [])
        in if additionalTableColCount < 0 then Inl RangeError
           else Inr (Some (CloserRow (key row) mapCloserLabel arrayCloserLabel level
                  (nat additionalTableColCount))))"

section \<open>The row materializer\<close>

text \<open>
  \<^verbatim>\<open>data.reduce(step, [])\<close> where a step may throw or not return: the rows so far are
  the accumulator, and the first step that fails ends the reduction.
\<close>

fun reduceRows ::
  "('b list \<Rightarrow> 'a \<Rightarrow> (error + 'b list) option) \<Rightarrow> 'b list \<Rightarrow> 'a list \<Rightarrow> (error + 'b list) option" where
  "reduceRows step prevRows [] = Some (Inr prevRows)"
| "reduceRows step prevRows (x # xs) =
     (case step prevRows x of
        None \<Rightarrow> None
      | Some (Inl e) \<Rightarrow> Some (Inl e)
      | Some (Inr rows) \<Rightarrow> reduceRows step rows xs)"

text \<open>
  The arrow function that \<^verbatim>\<open>getTableRows\<close> passes to \<^verbatim>\<open>reduce\<close>; \<open>recur\<close> is the
  recursive call of \<^verbatim>\<open>getTableRows\<close> on the details of the children. The opener and
  the closer are made before the children are materialized, as in the source. The call
  of \<^verbatim>\<open>preExpandRightPanel\<close> is an effect outside the rows and is left out.
\<close>

definition tableRowsStep ::
  "nat \<Rightarrow> constants \<Rightarrow> tableRowDetails \<Rightarrow> (tableRowDetails \<Rightarrow> (error + node option list) option) \<Rightarrow>
   node option list \<Rightarrow> item \<Rightarrow> (error + node option list) option" where
  "tableRowsStep fuel c d recur prevRows row =
     (let parentRow = Some (TableRow row (nestedLevel d)) in
      if isExpandable row \<and> isExpanded (expandedRows d) (key row) \<and> formatChildrenData d \<noteq> None
      then
        (case handleSpecificTypeRowData fuel c row (the (formatChildrenData d)) of
           None \<Rightarrow> None
         | Some (Inl e) \<Rightarrow> Some (Inl e)
         | Some (Inr h) \<Rightarrow>
             let additionalTableColCount = int (length (columns d)) - 1 in
             (case getSpecificTypeOpenerRow c (rowValuesToDisplay h) (arrayCount h)
                     (nestedLevel d) additionalTableColCount of
                Inl e \<Rightarrow> Some (Inl e)
              | Inr openerRow \<Rightarrow>
                  (case getSpecificTypeCloserRow c (rowValuesToDisplay h) (arrayCount h)
                          (nestedLevel d) additionalTableColCount of
                     Inl e \<Rightarrow> Some (Inl e)
                   | Inr closerRow \<Rightarrow>
                       (case recur (d\<lparr>data := formattedChildren h, nestedLevel := nestedLevel d + 1\<rparr>) of
                          None \<Rightarrow> None
                        | Some (Inl e) \<Rightarrow> Some (Inl e)
                        | Some (Inr childRows) \<Rightarrow>
                            Some (Inr (prevRows @ [parentRow, openerRow] @ childRows @ [closerRow]))))))
      else Some (Inr (prevRows @ [parentRow])))"

text \<open>
  \<^verbatim>\<open>getTableRows\<close>. The recursion follows the formatted children, which the caller's
  formatter makes, so it runs on fuel too; \<open>None\<close> is a call that has not returned when
  the fuel is spent.
\<close>

fun getTableRows :: "nat \<Rightarrow> constants \<Rightarrow> tableRowDetails \<Rightarrow> (error + node option list) option" where
  "getTableRows 0 c d = None"
| "getTableRows (Suc fuel) c d =
     reduceRows (tableRowsStep fuel c d (\<lambda>d'. getTableRows fuel c d')) [] (data d)"

text \<open>
  The cells that \<^verbatim>\<open>TableRow\<close> renders for a row: one for each own property that is the
  field of a column, in property order.
\<close>

definition tableRowCells :: "tableColumn list \<Rightarrow> item \<Rightarrow> (string \<times> cell) list" where
  "tableRowCells cols row = filter (\<lambda>(k, v). k \<in> set (map field cols)) (ownProperties row)"

text \<open>
  The body that \<^verbatim>\<open>Table\<close> renders after its hooks, from the data, the columns, the
  loading flag, the expanded keys that \<^verbatim>\<open>useTableHooks\<close> returned and the formatter of the
  options. The validation comes before the loading flag is read.
\<close>

datatype body = EmptyRow | Rows "node option list" | ShimmeringBody

definition tableBody ::
  "nat \<Rightarrow> constants \<Rightarrow> item list \<Rightarrow> tableColumn list \<Rightarrow> bool \<Rightarrow> string list \<Rightarrow>
   (item \<Rightarrow> nat \<Rightarrow> item) option \<Rightarrow> (error + body) option" where
  "tableBody fuel c rows cols isLoading expanded g =
     (let fields = map field cols in
      if rows \<noteq> [] then
        if \<not> checkIfValidData rows fields then Some (Inl InvalidDataError)
        else
          (case getTableRows fuel c
                  \<lparr>data = rows, columns = cols, expandedRows = expanded,
                   formatChildrenData = g, nestedLevel = 0\<rparr> of
             None \<Rightarrow> None
           | Some (Inl e) \<Rightarrow> Some (Inl e)
           | Some (Inr out) \<Rightarrow> Some (Inr (if isLoading then ShimmeringBody else Rows out)))
      else Some (Inr (if isLoading then ShimmeringBody else EmptyRow)))"

section \<open>Initial expansion\<close>

text \<open>
  \<^verbatim>\<open>getAllColumnKeys\<close>: the key of every column, each followed by the keys of the rows
  below it. A column is walked through the children of its type metadata when there are
  any, else through its own children.
\<close>

definition walkedChildren :: "item \<Rightarrow> item list" where
  "walkedChildren col =
     (case typeMetadata col of
        Some (Item _ _ _ _ _ _ _ (Some (x # xs))) \<Rightarrow> x # xs
      | _ \<Rightarrow> (case children col of Some (y # ys) \<Rightarrow> y # ys | _ \<Rightarrow> []))"

lemma size_walkedChildren: "size_list size (walkedChildren col) < size col"
  by (cases col) (auto simp: walkedChildren_def split: option.splits list.splits item.splits)

function getAllColumnKeys :: "item list \<Rightarrow> string list" where
  "getAllColumnKeys [] = []"
| "getAllColumnKeys (col # rest) =
     (key col # getAllColumnKeys (walkedChildren col)) @ getAllColumnKeys rest"
  by pat_completeness auto
termination
proof (relation "measure (size_list size)")
  fix col :: item and rest :: "item list"
  have "size_list size (walkedChildren col) < size col"
    by (rule size_walkedChildren)
  then show "(walkedChildren col, col # rest) \<in> measure (size_list size)"
    by simp
qed auto

text \<open>
  \<^verbatim>\<open>target.match(regex)\<close> with the regular expression given as its source text: the
  matched text (\<^verbatim>\<open>[0]\<close> of the result), \<^verbatim>\<open>null\<close>, or the \<^verbatim>\<open>SyntaxError\<close> that a source
  which is no regular expression throws. The functions take it as a parameter.
\<close>

datatype matchResult = Matched string | NoMatch | BadPattern

type_synonym matcher = "string \<Rightarrow> string \<Rightarrow> matchResult"

text \<open>\<^verbatim>\<open>tableKey + ...\<close>: an undefined table key is written out as text.\<close>

definition jsString :: "string option \<Rightarrow> string" where
  "jsString s = (case s of None \<Rightarrow> ''undefined'' | Some t \<Rightarrow> t)"

text \<open>
  The \<^verbatim>\<open>while (nextKey)\<close> loop of \<^verbatim>\<open>getKeysToExpand\<close>, from the keys so far, the source of
  the last regular expression and the result of its match. Each round appends the match
  to the keys and \<^verbatim>\<open>COLUMN_NAME_REGEX\<close> to the expression, and matches again. Whether a
  longer expression still matches is up to the constants, so the loop runs on fuel.
\<close>

fun nextKeys ::
  "nat \<Rightarrow> matcher \<Rightarrow> constants \<Rightarrow> string \<Rightarrow> string list \<Rightarrow> string \<Rightarrow> matchResult \<Rightarrow>
   (error + string list) option" where
  "nextKeys fuel m c target keysToExpand nextKeyRegex BadPattern = Some (Inl SyntaxError)"
| "nextKeys fuel m c target keysToExpand nextKeyRegex NoMatch = Some (Inr keysToExpand)"
| "nextKeys 0 m c target keysToExpand nextKeyRegex (Matched nextKey) = None"
| "nextKeys (Suc fuel) m c target keysToExpand nextKeyRegex (Matched nextKey) =
     nextKeys fuel m c target (keysToExpand @ [nextKey]) (nextKeyRegex @ COLUMN_NAME_REGEX c)
       (m target (nextKeyRegex @ COLUMN_NAME_REGEX c))"

text \<open>\<^verbatim>\<open>getKeysToExpand\<close>; an empty key is as falsy as a missing one.\<close>

definition getKeysToExpand ::
  "nat \<Rightarrow> matcher \<Rightarrow> constants \<Rightarrow> string option \<Rightarrow> string option \<Rightarrow> (error + string list) option" where
  "getKeysToExpand fuel m c preExpandPanelKey tableKey =
     (case preExpandPanelKey of
        None \<Rightarrow> Some (Inr [])
      | Some [] \<Rightarrow> Some (Inr [])
      | Some target \<Rightarrow>
          let columnKeyRegex = jsString tableKey @ COLUMN_NAME_REGEX c;
              columnKey = m target columnKeyRegex
          in
          if columnKey = BadPattern then Some (Inl SyntaxError)
          else
            let keysToExpand = (case columnKey of Matched k \<Rightarrow> [k] | _ \<Rightarrow> []);
                nextKeyRegex = columnKeyRegex @ TYPE_METADATA_REGEX c
            in nextKeys fuel m c target keysToExpand nextKeyRegex (m target nextKeyRegex))"

text \<open>
  \<^verbatim>\<open>getInitialExpandedRows\<close>; \<^verbatim>\<open>length <= undefined\<close> is false. The data are an argument
  that the source does not read.
\<close>

definition getInitialExpandedRows ::
  "nat \<Rightarrow> matcher \<Rightarrow> constants \<Rightarrow> item list \<Rightarrow> string list \<Rightarrow> int option \<Rightarrow> string option \<Rightarrow>
   string option \<Rightarrow> (error + string list) option" where
  "getInitialExpandedRows fuel m c rows allColumnKeys maxNumRows preExpandPanelKey tableKey =
     (if (case maxNumRows of None \<Rightarrow> False | Some mx \<Rightarrow> int (length allColumnKeys) \<le> mx)
      then Some (Inr allColumnKeys)
      else getKeysToExpand fuel m c preExpandPanelKey tableKey)"

text \<open>
  \<^verbatim>\<open>useTableHooks\<close>, for the expanded keys of the first render: the initial state. The
  effect that expands or collapses all rows runs after that render.
\<close>

definition useTableHooks ::
  "nat \<Rightarrow> matcher \<Rightarrow> constants \<Rightarrow> item list \<Rightarrow> int option \<Rightarrow> string option \<Rightarrow> string option \<Rightarrow>
   (error + string list) option" where
  "useTableHooks fuel m c rows maxNumRows preExpandPanelKey tableKey =
     (let allColumnKeys = getAllColumnKeys rows;
          initialExpandedRows =
            getInitialExpandedRows fuel m c rows allColumnKeys maxNumRows preExpandPanelKey tableKey
      in initialExpandedRows)"

section \<open>The table\<close>

text \<open>
  The first render of \<^verbatim>\<open>Table\<close>: the hooks, and then the body with the expanded keys that
  they return. An error of the hooks is thrown before the data are validated.
\<close>

definition Table ::
  "nat \<Rightarrow> matcher \<Rightarrow> constants \<Rightarrow> item list \<Rightarrow> tableColumn list \<Rightarrow> bool \<Rightarrow> int option \<Rightarrow>
   string option \<Rightarrow> string option \<Rightarrow> (item \<Rightarrow> nat \<Rightarrow> item) option \<Rightarrow> (error + body) option" where
  "Table fuel m c rows cols isLoading maxNumRows preExpandPanelKey tableKey g =
     (case useTableHooks fuel m c rows maxNumRows preExpandPanelKey tableKey of
        None \<Rightarrow> None
      | Some (Inl e) \<Rightarrow> Some (Inl e)
      | Some (Inr expanded) \<Rightarrow> tableBody fuel c rows cols isLoading expanded g)"

section \<open>Properties of the output\<close>

text \<open>The rows of the data shown at one nesting level, in order.\<close>

fun tableRowsAt :: "nat \<Rightarrow> node option list \<Rightarrow> item list" where
  "tableRowsAt lvl [] = []"
| "tableRowsAt lvl (Some (TableRow row l) # out) =
     (if l = lvl then row # tableRowsAt lvl out else tableRowsAt lvl out)"
| "tableRowsAt lvl (x # out) = tableRowsAt lvl out"

text \<open>
  Well-nested output at a nesting level, for the constants, the expanded keys, the
  formatter of the options and the columns of a table: a sequence of rows of that level.
  A row that is not expanded stands alone. An expanded row, whose unwrapping returns \<open>h\<close>,
  is followed by its children and what they show, which is well nested one level deeper
  and shows the formatted children of \<open>h\<close> at that level. They stand between an opener
  and a closer for the key of the unwrapped row, with as many brackets as \<open>h\<close> counts
  array layers and with the map marker when the unwrapped row is of kind map, if there
  is an array layer or the map marker; and between two \<^verbatim>\<open>null\<close>s if there is neither.
\<close>

inductive nested ::
  "constants \<Rightarrow> string list \<Rightarrow> (item \<Rightarrow> nat \<Rightarrow> item) option \<Rightarrow> tableColumn list \<Rightarrow> nat \<Rightarrow>
   node option list \<Rightarrow> bool"
  for c :: constants and expanded :: "string list" and g :: "(item \<Rightarrow> nat \<Rightarrow> item) option"
    and cols :: "tableColumn list" where
  nested_Nil: "nested c expanded g cols lvl []"
| nested_collapsed:
    "\<not> (isExpandable row \<and> isExpanded expanded (key row) \<and> g \<noteq> None) \<Longrightarrow>
     nested c expanded g cols lvl rest \<Longrightarrow>
     nested c expanded g cols lvl (Some (TableRow row lvl) # rest)"
| nested_plain:
    "isExpandable row \<Longrightarrow> isExpanded expanded (key row) \<Longrightarrow> g = Some f \<Longrightarrow>
     handleSpecificTypeRowData fuel c row f = Some (Inr h) \<Longrightarrow>
     \<not> (0 < arrayCount h \<or> kind (rowValuesToDisplay h) = Some (MAP_KIND c)) \<Longrightarrow>
     nested c expanded g cols (Suc lvl) inner \<Longrightarrow>
     tableRowsAt (Suc lvl) inner = formattedChildren h \<Longrightarrow>
     nested c expanded g cols lvl rest \<Longrightarrow>
     nested c expanded g cols lvl (Some (TableRow row lvl) # None # inner @ None # rest)"
| nested_bracketed:
    "isExpandable row \<Longrightarrow> isExpanded expanded (key row) \<Longrightarrow> g = Some f \<Longrightarrow>
     handleSpecificTypeRowData fuel c row f = Some (Inr h) \<Longrightarrow>
     0 < arrayCount h \<or> kind (rowValuesToDisplay h) = Some (MAP_KIND c) \<Longrightarrow>
     nested c expanded g cols (Suc lvl) inner \<Longrightarrow>
     tableRowsAt (Suc lvl) inner = formattedChildren h \<Longrightarrow>
     nested c expanded g cols lvl rest \<Longrightarrow>
     nested c expanded g cols lvl
       (Some (TableRow row lvl)
        # Some (OpenerRow (key (rowValuesToDisplay h))
                 (if 0 < arrayCount h
                  then ARRAY_LABEL c @ repeat (ARRAY_OPENER c) (arrayCount h) else [])
                 (if kind (rowValuesToDisplay h) = Some (MAP_KIND c)
                  then MAP_LABEL c @ MAP_OPENER c else [])
                 lvl (length cols - 1))
        # inner
        @ Some (CloserRow (key (rowValuesToDisplay h))
                 (if kind (rowValuesToDisplay h) = Some (MAP_KIND c) then MAP_CLOSER c else [])
                 (if 0 < arrayCount h then repeat (ARRAY_CLOSER c) (arrayCount h) else [])
                 lvl (length cols - 1))
        # rest)"

code_pred nested .

text \<open>
  The sources of the regular expressions that \<^verbatim>\<open>getKeysToExpand\<close> matches the deep-link
  target with: \<^verbatim>\<open>columnKeyRegex\<close>, and \<^verbatim>\<open>nextKeyRegex\<close> after \<open>i\<close> rounds of its loop.
\<close>

definition columnKeyRegex :: "constants \<Rightarrow> string option \<Rightarrow> string" where
  "columnKeyRegex c tableKey = jsString tableKey @ COLUMN_NAME_REGEX c"

definition nextKeyRegex :: "constants \<Rightarrow> string option \<Rightarrow> nat \<Rightarrow> string" where
  "nextKeyRegex c tableKey i =
     (columnKeyRegex c tableKey @ TYPE_METADATA_REGEX c) @ concat (replicate i (COLUMN_NAME_REGEX c))"

text \<open>
  A row that is \<open>n\<close> array layers deep over scalar elements. Every layer is of kind
  array and has a first formatted child. When that child is expandable it is the next
  layer. When it is not, it ends the nest: as a last layer of its own when it is of kind
  array (an array that has no row for its elements), and else as the scalar element of
  the layer above it.
\<close>

fun arrayNest :: "constants \<Rightarrow> (item \<Rightarrow> nat \<Rightarrow> item) \<Rightarrow> nat \<Rightarrow> item \<Rightarrow> bool" where
  "arrayNest c g 0 row = False"
| "arrayNest c g (Suc n) row =
     (kind row = Some (ARRAY_KIND c) \<and>
      (case getFormattedChildrenData row g of
         Inr (first # others) \<Rightarrow>
           if isExpandable first then arrayNest c g n first
           else if kind first = Some (ARRAY_KIND c) then n = 1
           else n = 0
       | _ \<Rightarrow> False))"

text \<open>
  The rows that \<^verbatim>\<open>getAllColumnKeys\<close> walks: the columns, and the walked children of a
  walked row.
\<close>

inductive walked :: "item list \<Rightarrow> item \<Rightarrow> bool" for cols :: "item list" where
  walked_top: "col \<in> set cols \<Longrightarrow> walked cols col"
| walked_child: "walked cols p \<Longrightarrow> r \<in> set (walkedChildren p) \<Longrightarrow> walked cols r"

code_pred walked .

text \<open>
  The depth of a row as a tree, through its type metadata and its children, and the
  formatters that return no row deeper than the one they are given. A formatter that
  keeps the type metadata and the children of its argument is one of them.
\<close>

fun depth :: "item \<Rightarrow> nat" where
  "depth (Item k n kd e t cs tm ch) =
     Suc (max (case tm of None \<Rightarrow> 0 | Some x \<Rightarrow> depth x)
              (case ch of None \<Rightarrow> 0 | Some xs \<Rightarrow> foldr max (map depth xs) 0))"

definition notDeeper :: "(item \<Rightarrow> nat \<Rightarrow> item) \<Rightarrow> bool" where
  "notDeeper g = (\<forall>x i. depth (g x i) \<le> depth x)"

text \<open>
  A step result appended to the rows so far; every step of \<^verbatim>\<open>getTableRows\<close> has this
  form.
\<close>

definition appendRows :: "'b list \<Rightarrow> (error + 'b list) option \<Rightarrow> (error + 'b list) option" where
  "appendRows prevRows r =
     (case r of
        None \<Rightarrow> None
      | Some (Inl e) \<Rightarrow> Some (Inl e)
      | Some (Inr rows) \<Rightarrow> Some (Inr (prevRows @ rows)))"

section \<open>Sample inputs\<close>

text \<open>
  Modelled from the spec: the constants module is not among the sources. The kinds
  \<open>array\<close> and \<open>map\<close> and the display names \<open>Key\<close> and \<open>Value\<close> are the spec's words; the
  labels, the brackets, the internal names of the map children and the two regular
  expressions are sample values.
\<close>

definition specConstants :: constants where
  "specConstants =
     \<lparr>ARRAY_KIND = ''array'', MAP_KIND = ''map'',
      ARRAY_LABEL = ''array'', ARRAY_OPENER = ''['', ARRAY_CLOSER = '']'',
      MAP_LABEL = ''map'', MAP_OPENER = ''{'', MAP_CLOSER = ''}'',
      MAP_KEY_NAME = ''_map_key'', MAP_VALUE_NAME = ''_map_value'',
      MAP_KEY_DISPLAY_NAME = ''Key'', MAP_VALUE_DISPLAY_NAME = ''Value'',
      COLUMN_NAME_REGEX = ''/[^/]+'', TYPE_METADATA_REGEX = ''/type/[^/]+''\<rparr>"

text \<open>A formatter that hands the row on as it is, and the details of a one-column table.\<close>

definition keepRow :: "item \<Rightarrow> nat \<Rightarrow> item" where
  "keepRow row i = row"

definition nameColumn :: tableColumn where
  "nameColumn = \<lparr>colTitle = ''Name'', field = ''name''\<rparr>"

definition detailsOf :: "item list \<Rightarrow> string list \<Rightarrow> tableRowDetails" where
  "detailsOf rows expanded =
     \<lparr>data = rows, columns = [nameColumn], expandedRows = expanded,
      formatChildrenData = Some keepRow, nestedLevel = 0\<rparr>"

text \<open>A column of kind array whose elements are arrays of a scalar.\<close>

definition matrixCell :: item where
  "matrixCell =
     Item ''matrix/row/cell'' (Some ''cell'') (Some ''scalar'') False (Some ''cell'')
       [] None None"

definition matrixRow :: item where
  "matrixRow =
     Item ''matrix/row'' (Some ''row'') (Some ''array'') True (Some ''row'')
       [] None (Some [matrixCell])"

definition matrixColumn :: item where
  "matrixColumn =
     Item ''matrix'' (Some ''matrix'') (Some ''array'') True (Some ''matrix'')
       [] None (Some [matrixRow])"

text \<open>A row of kind array whose elements are arrays that have no row for their elements.\<close>

definition gridLine :: item where
  "gridLine =
     Item ''grid/line'' (Some ''line'') (Some ''array'') False (Some ''line'')
       [] None None"

definition gridRow :: item where
  "gridRow =
     Item ''grid'' (Some ''grid'') (Some ''array'') True (Some ''grid'')
       [] None (Some [gridLine])"

text \<open>A column whose type metadata is an array of structs with one field.\<close>

definition cityField :: item where
  "cityField =
     Item ''addresses/elem/city'' (Some ''city'') (Some ''scalar'') False (Some ''city'')
       [] None None"

definition addressStruct :: item where
  "addressStruct =
     Item ''addresses/elem'' (Some ''elem'') (Some ''struct'') True (Some ''elem'')
       [] None (Some [cityField])"

definition addressesType :: item where
  "addressesType =
     Item ''addresses/type'' (Some ''addresses'') (Some ''array'') True (Some ''addresses'')
       [] None (Some [addressStruct])"

definition addressesColumn :: item where
  "addressesColumn =
     Item ''addresses'' (Some ''addresses'') None True (Some ''addresses'')
       [] (Some addressesType) None"

text \<open>A row of kind map with its two children.\<close>

definition attrsKey :: item where
  "attrsKey =
     Item ''attrs/_map_key'' (Some ''_map_key'') (Some ''scalar'') False (Some ''_map_key'')
       [] None None"

definition attrsValue :: item where
  "attrsValue =
     Item ''attrs/_map_value'' (Some ''_map_value'') (Some ''scalar'') False (Some ''_map_value'')
       [] None None"

definition attrsRow :: item where
  "attrsRow =
     Item ''attrs'' (Some ''attrs'') (Some ''map'') True (Some ''attrs'')
       [] None (Some [attrsKey, attrsValue])"

text \<open>A row marked expandable that has neither type metadata nor children.\<close>

definition orphanRow :: item where
  "orphanRow = Item ''a'' (Some ''a'') None True (Some ''a'') [] None None"

text \<open>
  A row of kind map whose value is a struct with one field, all of them with their
  formatted names.
\<close>

definition labelsKey :: item where
  "labelsKey =
     Item ''labels/_map_key'' (Some ''_map_key'') (Some ''scalar'') False (Some ''_map_key'')
       [] None None"

definition labelsOwner :: item where
  "labelsOwner =
     Item ''labels/_map_value/owner'' (Some ''owner'') (Some ''scalar'') False (Some ''owner'')
       [] None None"

definition labelsValue :: item where
  "labelsValue =
     Item ''labels/_map_value'' (Some ''_map_value'') (Some ''struct'') True (Some ''_map_value'')
       [] None (Some [labelsOwner])"

definition labelsRow :: item where
  "labelsRow =
     Item ''labels'' (Some ''labels'') (Some ''map'') True (Some ''labels'') [] None
       (Some [labelsKey, labelsValue])"

text \<open>
  Three plain rows and two columns. The first row has a name and a usage; the second has
  neither property; the third has a name, and the property \<open>usage\<close> with the value
  \<^verbatim>\<open>undefined\<close>.
\<close>

definition usageColumn :: tableColumn where
  "usageColumn = \<lparr>colTitle = ''Usage'', field = ''usage''\<rparr>"

definition namedRow :: item where
  "namedRow = Item ''a'' (Some ''a'') None False None [(''usage'', Content ''12'')] None None"

definition unnamedRow :: item where
  "unnamedRow = Item ''b'' None None False None [] None None"

definition unusedRow :: item where
  "unusedRow = Item ''c'' (Some ''c'') None False None [(''usage'', Undefined)] None None"

text \<open>
  A table \<open>t\<close> with the single plain column \<open>t/a\<close>, and what \<^verbatim>\<open>match\<close> returns for the
  deep link \<open>t/a\<close>: the column pattern \<^verbatim>\<open>t/[^/]+\<close> matches all of it, and no longer pattern
  matches. No other argument occurs in the example.
\<close>

definition soloColumn :: item where
  "soloColumn = Item ''t/a'' (Some ''a'') None False (Some ''a'') [] None None"

definition soloMatch :: matcher where
  "soloMatch target regex =
     (if target = ''t/a'' \<and> regex = ''t/[^/]+'' then Matched ''t/a'' else NoMatch)"

text \<open>
  A table \<open>t\<close> whose column \<open>t/a\<close> has the type metadata \<open>t/a/type/a\<close>, a struct with the
  fields \<open>b\<close> and \<open>c\<close>, and what \<^verbatim>\<open>match\<close> returns for the deep link \<open>t/a/type/a/b\<close>: the
  column pattern matches \<open>t/a\<close>, the pattern of the type metadata matches \<open>t/a/type/a\<close>,
  the pattern of the next level matches the whole link, and no longer pattern matches.
\<close>

definition deepFieldB :: item where
  "deepFieldB =
     Item ''t/a/type/a/b'' (Some ''b'') (Some ''scalar'') False (Some ''b'')
       [] None None"

definition deepFieldC :: item where
  "deepFieldC =
     Item ''t/a/type/a/c'' (Some ''c'') (Some ''scalar'') False (Some ''c'')
       [] None None"

definition deepType :: item where
  "deepType =
     Item ''t/a/type/a'' (Some ''a'') (Some ''struct'') True (Some ''a'') [] None
       (Some [deepFieldB, deepFieldC])"

definition deepColumn :: item where
  "deepColumn = Item ''t/a'' (Some ''a'') None True (Some ''a'') [] (Some deepType) None"

definition deepMatch :: matcher where
  "deepMatch target regex =
     (if target \<noteq> ''t/a/type/a/b'' then NoMatch
      else if regex = ''t/[^/]+'' then Matched ''t/a''
      else if regex = ''t/[^/]+/type/[^/]+'' then Matched ''t/a/type/a''
      else if regex = ''t/[^/]+/type/[^/]+/[^/]+'' then Matched ''t/a/type/a/b''
      else NoMatch)"

section \<open>Lemmas\<close>

declare arrayLayers.simps [simp del]

lemma tableRowsStep_prevRows:
  "tableRowsStep fuel c d recur prevRows row = appendRows prevRows (tableRowsStep fuel c d recur [] row)"
  by (simp add: tableRowsStep_def appendRows_def Let_def split: option.splits sum.splits)

text \<open>A reduction that returns has appended one segment for each element, in order.\<close>

lemma reduceRows_segments:
  assumes step: "\<And>prevRows x. step prevRows x = appendRows prevRows (step [] x)"
    and red: "reduceRows step acc xs = Some (Inr out)"
  shows "\<exists>segs. list_all2 (\<lambda>x seg. step [] x = Some (Inr seg)) xs segs \<and> out = acc @ concat segs"
  using red
proof (induction xs arbitrary: acc)
  case Nil
  then show ?case by simp
next
  case (Cons x xs)
  from Cons.prems obtain rows where r: "step acc x = Some (Inr rows)"
    and rest: "reduceRows step rows xs = Some (Inr out)"
    by (auto split: option.splits sum.splits)
  from r step [of acc x] obtain seg where seg: "step [] x = Some (Inr seg)" and rows: "rows = acc @ seg"
    by (auto simp: appendRows_def split: option.splits sum.splits)
  from Cons.IH [OF rest] obtain segs
    where "list_all2 (\<lambda>x seg. step [] x = Some (Inr seg)) xs segs" and "out = rows @ concat segs"
    by blast
  with seg rows
  have "list_all2 (\<lambda>x seg. step [] x = Some (Inr seg)) (x # xs) (seg # segs) \<and>
        out = acc @ concat (seg # segs)"
    by simp
  then show ?case by blast
qed

lemma reduceRows_collapsed:
  "reduceRows (\<lambda>prevRows x. Some (Inr (prevRows @ [h x]))) acc xs = Some (Inr (acc @ map h xs))"
  by (induction xs arbitrary: acc) auto

lemma list_all2_right_elem:
  "list_all2 P xs ys \<Longrightarrow> y \<in> set ys \<Longrightarrow> \<exists>x \<in> set xs. P x y"
  by (induction rule: list_all2_induct) auto

subsection \<open>The rows of the output\<close>

lemma list_all2_left_elem:
  "list_all2 P xs ys \<Longrightarrow> x \<in> set xs \<Longrightarrow> \<exists>y \<in> set ys. P x y"
  by (induction rule: list_all2_induct) auto

text \<open>
  The opener and the closer of one row: both \<^verbatim>\<open>null\<close>, or an opener and a closer with
  the same key, the same number of brackets and the same map marker.
\<close>

lemma brackets_cases:
  assumes "getSpecificTypeOpenerRow c row n lvl cols = Inr openerRow"
    and "getSpecificTypeCloserRow c row n lvl cols = Inr closerRow"
  shows "(openerRow = None \<and> closerRow = None \<and> \<not> (0 < n \<or> kind row = Some (MAP_KIND c))) \<or>
         ((0 < n \<or> kind row = Some (MAP_KIND c)) \<and> 0 \<le> cols \<and>
          openerRow = Some (OpenerRow (key row)
             (if 0 < n then ARRAY_LABEL c @ repeat (ARRAY_OPENER c) n else [])
             (if kind row = Some (MAP_KIND c) then MAP_LABEL c @ MAP_OPENER c else []) lvl (nat cols)) \<and>
          closerRow = Some (CloserRow (key row)
             (if kind row = Some (MAP_KIND c) then MAP_CLOSER c else [])
             (if 0 < n then repeat (ARRAY_CLOSER c) n else []) lvl (nat cols)))"
  using assms
  by (auto simp: getSpecificTypeOpenerRow_def getSpecificTypeCloserRow_def Let_def split: if_splits)

lemma opener_closer_not_TableRow:
  "getSpecificTypeOpenerRow c row n lvl cols = Inr openerRow \<Longrightarrow> openerRow \<noteq> Some (TableRow r l)"
  "getSpecificTypeCloserRow c row n lvl cols = Inr closerRow \<Longrightarrow> closerRow \<noteq> Some (TableRow r l)"
  by (auto simp: getSpecificTypeOpenerRow_def getSpecificTypeCloserRow_def Let_def split: if_splits)

lemma tableRowsStep_parent:
  "tableRowsStep fuel c d recur [] row = Some (Inr seg) \<Longrightarrow>
   Some (TableRow row (nestedLevel d)) \<in> set seg"
  by (auto simp: tableRowsStep_def Let_def split: if_splits option.splits sum.splits)

lemma data_rows_shown:
  assumes "getTableRows fuel c d = Some (Inr out)" and "row \<in> set (data d)"
  shows "Some (TableRow row (nestedLevel d)) \<in> set out"
proof (cases fuel)
  case 0
  with assms show ?thesis by simp
next
  case (Suc fuel')
  let ?step = "tableRowsStep fuel' c d (\<lambda>d'. getTableRows fuel' c d')"
  from assms(1) Suc have "reduceRows ?step [] (data d) = Some (Inr out)" by simp
  from reduceRows_segments [of ?step, OF tableRowsStep_prevRows this]
  obtain segs where segs: "list_all2 (\<lambda>x seg. ?step [] x = Some (Inr seg)) (data d) segs"
    and out: "out = concat segs" by auto
  from list_all2_left_elem [OF segs assms(2)] obtain seg
    where "seg \<in> set segs" and "?step [] row = Some (Inr seg)" by blast
  with out tableRowsStep_parent [of fuel' c d _ row seg] show ?thesis by auto
qed

lemma shown_row_origin:
  assumes "getTableRows fuel c d = Some (Inr out)" and "Some (TableRow r l) \<in> set out"
  shows "(l = nestedLevel d \<and> r \<in> set (data d)) \<or>
         (nestedLevel d < l \<and>
          (\<exists>p h fuel'. Some (TableRow p (l - 1)) \<in> set out \<and> isExpandable p \<and>
             isExpanded (expandedRows d) (key p) \<and> formatChildrenData d \<noteq> None \<and>
             handleSpecificTypeRowData fuel' c p (the (formatChildrenData d)) = Some (Inr h) \<and>
             r \<in> set (formattedChildren h)))"
  using assms
proof (induction fuel arbitrary: d out r l)
  case 0
  then show ?case by simp
next
  case (Suc fuel)
  let ?step = "tableRowsStep fuel c d (\<lambda>d'. getTableRows fuel c d')"
  from Suc.prems(1) have "reduceRows ?step [] (data d) = Some (Inr out)" by simp
  from reduceRows_segments [of ?step, OF tableRowsStep_prevRows this]
  obtain segs where segs: "list_all2 (\<lambda>x seg. ?step [] x = Some (Inr seg)) (data d) segs"
    and out: "out = concat segs" by auto
  from Suc.prems(2) out obtain seg where seg: "seg \<in> set segs" and r: "Some (TableRow r l) \<in> set seg"
    by auto
  from list_all2_right_elem [OF segs seg]
  obtain row where row: "row \<in> set (data d)" and step: "?step [] row = Some (Inr seg)"
    by blast
  from seg out have sub: "set seg \<subseteq> set out" by auto
  show ?case
  proof (cases "isExpandable row \<and> isExpanded (expandedRows d) (key row) \<and> formatChildrenData d \<noteq> None")
    case False
    with step have "seg = [Some (TableRow row (nestedLevel d))]"
      by (auto simp: tableRowsStep_def Let_def)
    with r row show ?thesis by simp
  next
    case True
    let ?d' = "d\<lparr>data := formattedChildren h, nestedLevel := nestedLevel d + 1\<rparr>"
    from True step obtain h openerRow closerRow childRows where
      h: "handleSpecificTypeRowData fuel c row (the (formatChildrenData d)) = Some (Inr h)"
      and op: "getSpecificTypeOpenerRow c (rowValuesToDisplay h) (arrayCount h) (nestedLevel d)
                (int (length (columns d)) - 1) = Inr openerRow"
      and cl: "getSpecificTypeCloserRow c (rowValuesToDisplay h) (arrayCount h) (nestedLevel d)
                (int (length (columns d)) - 1) = Inr closerRow"
      and kids: "getTableRows fuel c (d\<lparr>data := formattedChildren h, nestedLevel := nestedLevel d + 1\<rparr>)
                = Some (Inr childRows)"
      and sg: "seg = [Some (TableRow row (nestedLevel d)), openerRow] @ childRows @ [closerRow]"
      by (auto simp: tableRowsStep_def Let_def split: option.splits sum.splits)
    from r sg opener_closer_not_TableRow(1) [OF op] opener_closer_not_TableRow(2) [OF cl]
    consider "r = row \<and> l = nestedLevel d" | "Some (TableRow r l) \<in> set childRows"
      by auto
    then show ?thesis
    proof cases
      case 1
      with row show ?thesis by simp
    next
      case 2
      from sg sub have parent: "Some (TableRow row (nestedLevel d)) \<in> set out"
        and kidsub: "set childRows \<subseteq> set out" by auto
      from Suc.IH [OF kids 2]
      have "(l = nestedLevel d + 1 \<and> r \<in> set (formattedChildren h)) \<or>
            (nestedLevel d + 1 < l \<and>
             (\<exists>p h' fuel'. Some (TableRow p (l - 1)) \<in> set childRows \<and> isExpandable p \<and>
                isExpanded (expandedRows d) (key p) \<and> formatChildrenData d \<noteq> None \<and>
                handleSpecificTypeRowData fuel' c p (the (formatChildrenData d)) = Some (Inr h') \<and>
                r \<in> set (formattedChildren h')))"
        by simp
      then show ?thesis
      proof
        assume "l = nestedLevel d + 1 \<and> r \<in> set (formattedChildren h)"
        with parent True h show ?thesis by auto
      next
        assume "nestedLevel d + 1 < l \<and>
             (\<exists>p h' fuel'. Some (TableRow p (l - 1)) \<in> set childRows \<and> isExpandable p \<and>
                isExpanded (expandedRows d) (key p) \<and> formatChildrenData d \<noteq> None \<and>
                handleSpecificTypeRowData fuel' c p (the (formatChildrenData d)) = Some (Inr h') \<and>
                r \<in> set (formattedChildren h'))"
        with kidsub show ?thesis by auto
      qed
    qed
  qed
qed

lemma getTableRows_levels:
  "getTableRows fuel c d = Some (Inr out) \<Longrightarrow> Some (TableRow r l) \<in> set out \<Longrightarrow> nestedLevel d \<le> l"
  by (drule shown_row_origin) auto

lemma tableRowsAt_append [simp]:
  "tableRowsAt lvl (xs @ ys) = tableRowsAt lvl xs @ tableRowsAt lvl ys"
  by (induction lvl xs rule: tableRowsAt.induct) auto

lemma tableRowsAt_deeper:
  "(\<And>r l. Some (TableRow r l) \<in> set out \<Longrightarrow> lvl < l) \<Longrightarrow> tableRowsAt lvl out = []"
proof (induction lvl out rule: tableRowsAt.induct)
  case (2 lvl row l out)
  from 2(3) [of row l] have "lvl < l" by simp
  moreover have "tableRowsAt lvl out = []"
    using 2(2) 2(3) \<open>lvl < l\<close> by auto
  ultimately show ?case by simp
qed auto

text \<open>The segment of one row shows that row, and no other row, at the level of the call.\<close>

lemma segment_level_rows:
  assumes "tableRowsStep fuel c d (\<lambda>d'. getTableRows fuel c d') [] row = Some (Inr seg)"
  shows "tableRowsAt (nestedLevel d) seg = [row]"
proof (cases "isExpandable row \<and> isExpanded (expandedRows d) (key row) \<and> formatChildrenData d \<noteq> None")
  case False
  with assms have "seg = [Some (TableRow row (nestedLevel d))]"
    by (auto simp: tableRowsStep_def Let_def)
  then show ?thesis by simp
next
  case True
  with assms obtain h openerRow closerRow childRows where
    h: "handleSpecificTypeRowData fuel c row (the (formatChildrenData d)) = Some (Inr h)"
    and op: "getSpecificTypeOpenerRow c (rowValuesToDisplay h) (arrayCount h) (nestedLevel d)
              (int (length (columns d)) - 1) = Inr openerRow"
    and cl: "getSpecificTypeCloserRow c (rowValuesToDisplay h) (arrayCount h) (nestedLevel d)
              (int (length (columns d)) - 1) = Inr closerRow"
    and kids: "getTableRows fuel c (d\<lparr>data := formattedChildren h, nestedLevel := nestedLevel d + 1\<rparr>)
              = Some (Inr childRows)"
    and sg: "seg = [Some (TableRow row (nestedLevel d)), openerRow] @ childRows @ [closerRow]"
    by (auto simp: tableRowsStep_def Let_def split: option.splits sum.splits)
  have "tableRowsAt (nestedLevel d) childRows = []"
  proof (rule tableRowsAt_deeper)
    fix r l assume "Some (TableRow r l) \<in> set childRows"
    from getTableRows_levels [OF kids this] show "nestedLevel d < l" by simp
  qed
  with sg brackets_cases [OF op cl] show ?thesis
    by auto
qed

lemma getTableRows_level_rows:
  assumes "getTableRows fuel c d = Some (Inr out)"
  shows "tableRowsAt (nestedLevel d) out = data d"
proof (cases fuel)
  case 0
  with assms show ?thesis by simp
next
  case (Suc fuel')
  let ?step = "tableRowsStep fuel' c d (\<lambda>d'. getTableRows fuel' c d')"
  from assms Suc have "reduceRows ?step [] (data d) = Some (Inr out)" by simp
  from reduceRows_segments [of ?step, OF tableRowsStep_prevRows this]
  obtain segs where segs: "list_all2 (\<lambda>x seg. ?step [] x = Some (Inr seg)) (data d) segs"
    and out: "out = concat segs" by auto
  from segs have "tableRowsAt (nestedLevel d) (concat segs) = data d"
    by (induction rule: list_all2_induct) (simp_all add: segment_level_rows)
  with out show ?thesis by simp
qed

subsection \<open>Fuel\<close>

text \<open>More fuel does not change a result.\<close>

lemma arrayLayers_more_fuel:
  "arrayLayers fuel c g row n = Some res \<Longrightarrow> arrayLayers (fuel + k) c g row n = Some res"
proof (induction fuel arbitrary: row n)
  case 0
  then show ?case
    by (cases "kind row = Some (ARRAY_KIND c)") (simp_all add: arrayLayers.simps)
next
  case (Suc fuel)
  show ?case
  proof (cases "kind row = Some (ARRAY_KIND c)")
    case False
    with Suc.prems show ?thesis by (simp add: arrayLayers.simps)
  next
    case True
    show ?thesis
    proof (cases "getFormattedChildrenData row g")
      case (Inl e)
      with True Suc.prems show ?thesis
        by (simp add: arrayLayers.simps [of "Suc fuel"] arrayLayers.simps [of "Suc (fuel + k)"])
    next
      case (Inr cs)
      show ?thesis
      proof (cases cs)
        case Nil
        with Inr True Suc.prems show ?thesis
          by (simp add: arrayLayers.simps [of "Suc fuel"] arrayLayers.simps [of "Suc (fuel + k)"])
      next
        case (Cons first others)
        show ?thesis
        proof (cases "isExpandable first")
          case False
          with Cons Inr True Suc.prems show ?thesis
            by (simp add: arrayLayers.simps [of "Suc fuel"] arrayLayers.simps [of "Suc (fuel + k)"])
        next
          case e: True
          with Cons Inr True Suc.prems have "arrayLayers fuel c g first (n + 1) = Some res"
            by (simp add: arrayLayers.simps [of "Suc fuel"])
          from Suc.IH [OF this] e Cons Inr True show ?thesis
            by (simp add: arrayLayers.simps [of "Suc (fuel + k)"])
        qed
      qed
    qed
  qed
qed


lemma handleSpecificTypeRowData_more_fuel:
  assumes a: "handleSpecificTypeRowData fuel c row g = Some res"
  shows "handleSpecificTypeRowData (fuel + k) c row g = Some res"
proof -
  let ?start = "case typeMetadata row of Some tm \<Rightarrow> g tm 0 | None \<Rightarrow> row"
  from a obtain r where r: "arrayLayers fuel c g ?start 0 = Some r"
    by (auto simp: handleSpecificTypeRowData_def split: option.splits)
  from arrayLayers_more_fuel [OF r, of k] r a show ?thesis
    by (simp add: handleSpecificTypeRowData_def)
qed

lemma reduceRows_more:
  assumes "\<And>prevRows x res. step prevRows x = Some res \<Longrightarrow> step' prevRows x = Some res"
  shows "reduceRows step acc xs = Some res \<Longrightarrow> reduceRows step' acc xs = Some res"
proof (induction xs arbitrary: acc)
  case Nil
  then show ?case by simp
next
  case (Cons x xs)
  from Cons.prems obtain r where r: "step acc x = Some r"
    by (auto split: option.splits)
  with assms have r': "step' acc x = Some r" by simp
  from Cons.prems r r' Cons.IH show ?case
    by (cases r) auto
qed


lemma tableRowsStep_more:
  assumes recur: "\<And>d' res. recur d' = Some res \<Longrightarrow> recur' d' = Some res"
    and step: "tableRowsStep fuel c d recur prevRows row = Some r"
  shows "tableRowsStep (fuel + k) c d recur' prevRows row = Some r"
proof (cases "isExpandable row \<and> isExpanded (expandedRows d) (key row) \<and> formatChildrenData d \<noteq> None")
  case False
  with step show ?thesis by (auto simp: tableRowsStep_def)
next
  case True
  with step obtain hres where
    h: "handleSpecificTypeRowData fuel c row (the (formatChildrenData d)) = Some hres"
    by (auto simp: tableRowsStep_def split: option.splits)
  note h' = handleSpecificTypeRowData_more_fuel [OF h, of k]
  show ?thesis
  proof (cases hres)
    case (Inl e)
    with True step h h' show ?thesis by (simp add: tableRowsStep_def)
  next
    case (Inr hd)
    let ?d' = "d\<lparr>data := formattedChildren hd, nestedLevel := nestedLevel d + 1\<rparr>"
    show ?thesis
    proof (cases "recur ?d'")
      case None
      with True step h h' Inr show ?thesis
        by (auto simp: tableRowsStep_def Let_def split: sum.splits)
    next
      case (Some rr)
      from recur [OF Some] True step h h' Inr Some show ?thesis
        by (auto simp: tableRowsStep_def Let_def split: sum.splits)
    qed
  qed
qed

lemma getTableRows_more_fuel:
  "getTableRows fuel c d = Some res \<Longrightarrow> getTableRows (fuel + k) c d = Some res"
proof (induction fuel arbitrary: d res)
  case 0
  then show ?case by simp
next
  case (Suc fuel)
  have "tableRowsStep (fuel + k) c d (\<lambda>d'. getTableRows (fuel + k) c d') prevRows row = Some r"
    if "tableRowsStep fuel c d (\<lambda>d'. getTableRows fuel c d') prevRows row = Some r" for prevRows row r
    using that by (rule tableRowsStep_more [rotated]) (rule Suc.IH)
  from reduceRows_more [of "tableRowsStep fuel c d (\<lambda>d'. getTableRows fuel c d')", OF this] Suc.prems
  show ?case by simp
qed

text \<open>
  With a formatter that returns no deeper rows, the materializer returns (rows or an
  exception) as soon as the fuel exceeds the depth of the data.
\<close>

lemma depth_setTitle [simp]: "depth (setTitle row t) = depth row"
  by (cases row) simp

lemma depth_typeMetadata: "typeMetadata row = Some tm \<Longrightarrow> depth tm < depth row"
  by (cases row) (simp add: less_Suc_eq_le)

lemma foldr_max_ge: "x \<in> set xs \<Longrightarrow> f x \<le> foldr max (map f xs) (0::nat)"
  by (induction xs) (auto simp: max_def)

lemma depth_children: "children row = Some xs \<Longrightarrow> x \<in> set xs \<Longrightarrow> depth x < depth row"
  by (cases row) (auto simp: less_Suc_eq_le max_def dest: foldr_max_ge [of _ _ depth])

lemma mapIndexed_elem: "y \<in> set (mapIndexed g xs) \<Longrightarrow> \<exists>x \<in> set xs. \<exists>i. y = g x i"
  by (auto simp: mapIndexed_def dest: set_zip_leftD)

lemma formatted_child_depth:
  assumes "notDeeper g" and "getFormattedChildrenData row g = Inr cs" and "y \<in> set cs"
  shows "depth y < depth row"
proof -
  from assms(2,3) obtain x i where y: "y = g x i"
    and x: "typeMetadata row = Some x \<or> (\<exists>xs. children row = Some xs \<and> x \<in> set xs)"
    by (auto simp: getFormattedChildrenData_def split: option.splits dest!: mapIndexed_elem)
  from x have "depth x < depth row"
    by (auto dest: depth_typeMetadata depth_children)
  moreover from assms(1) y have "depth y \<le> depth x" by (simp add: notDeeper_def)
  ultimately show ?thesis by simp
qed

lemma arrayLayers_returns:
  assumes g: "notDeeper g"
  shows "depth row \<le> fuel \<Longrightarrow>
    \<exists>res. arrayLayers fuel c g row n = Some res \<and>
      (\<forall>inner m. res = Inr (inner, m) \<longrightarrow> depth inner \<le> depth row)"
proof (induction fuel arbitrary: row n)
  case 0
  then have False by (cases row) simp
  then show ?case ..
next
  case (Suc fuel)
  show ?case
  proof (cases "getFormattedChildrenData row g")
    case (Inl e)
    then show ?thesis by (simp add: arrayLayers.simps [of "Suc fuel"])
  next
    case (Inr cs)
    show ?thesis
    proof (cases cs)
      case Nil
      with Inr show ?thesis by (simp add: arrayLayers.simps [of "Suc fuel"])
    next
      case (Cons first others)
      with Inr formatted_child_depth [OF g, of row cs first] have d: "depth first < depth row" by simp
      with Suc.prems have "depth first \<le> fuel" by simp
      from Suc.IH [OF this, of "n + 1"] d Inr Cons show ?thesis
        by (auto simp: arrayLayers.simps [of "Suc fuel"])
    qed
  qed
qed

lemma handleSpecificTypeRowData_returns:
  assumes g: "notDeeper g" and fuel: "depth row \<le> fuel"
  shows "\<exists>res. handleSpecificTypeRowData fuel c row g = Some res \<and>
      (\<forall>h. res = Inr h \<longrightarrow> (\<forall>y \<in> set (formattedChildren h). depth y < depth row))"
proof -
  let ?start = "case typeMetadata row of Some tm \<Rightarrow> g tm 0 | None \<Rightarrow> row"
  have start: "depth ?start \<le> depth row"
  proof (cases "typeMetadata row")
    case None
    then show ?thesis by simp
  next
    case (Some tm)
    from g have "depth (g tm 0) \<le> depth tm" by (simp add: notDeeper_def)
    with depth_typeMetadata [OF Some] Some show ?thesis by simp
  qed
  with fuel have "depth ?start \<le> fuel" by simp
  from arrayLayers_returns [OF g this, of c 0] obtain res
    where res: "arrayLayers fuel c g ?start 0 = Some res"
      and inner: "\<forall>inner m. res = Inr (inner, m) \<longrightarrow> depth inner \<le> depth ?start"
    by blast
  show ?thesis
  proof (cases res)
    case (Inl e)
    with res show ?thesis by (simp add: handleSpecificTypeRowData_def)
  next
    case (Inr p)
    obtain inner' m where p: "p = (inner', m)" by (cases p)
    with Inr inner start have d: "depth inner' \<le> depth row" by auto
    have "depth y < depth row" if "getFormattedChildrenData inner' g = Inr cs"
      and "y \<in> set cs \<or> y \<in> set (updateMapDisplayNames c cs)" for cs y
    proof -
      from that(2) obtain z where z: "z \<in> set cs" and yz: "depth y = depth z"
        by (auto simp: updateMapDisplayNames_def Let_def)
      from formatted_child_depth [OF g that(1) z] have "depth z < depth inner'" .
      with d yz show ?thesis by simp
    qed
    with res Inr p show ?thesis
      by (auto simp: handleSpecificTypeRowData_def split: sum.splits)
  qed
qed

lemma reduceRows_returns:
  "(\<And>prevRows x. x \<in> set xs \<Longrightarrow> \<exists>res. step prevRows x = Some res) \<Longrightarrow>
   \<exists>res. reduceRows step acc xs = Some res"
proof (induction xs arbitrary: acc)
  case Nil
  then show ?case by simp
next
  case (Cons x xs)
  from Cons.prems [of x acc] obtain res where res: "step acc x = Some res" by auto
  show ?case
  proof (cases res)
    case (Inl e)
    with res show ?thesis by simp
  next
    case (Inr rows)
    from Cons.IH [of rows] Cons.prems obtain res' where "reduceRows step rows xs = Some res'"
      by auto
    with res Inr show ?thesis by simp
  qed
qed

theorem getTableRows_returns:
  assumes g: "\<And>g. formatChildrenData d = Some g \<Longrightarrow> notDeeper g"
  shows "\<forall>row \<in> set (data d). depth row \<le> fuel \<Longrightarrow> \<exists>res. getTableRows (Suc fuel) c d = Some res"
  using g
proof (induction fuel arbitrary: d)
  case 0
  have "data d = []"
  proof (cases "data d")
    case (Cons row rest)
    with 0 have "depth row \<le> 0" by simp
    then show ?thesis by (cases row) simp
  qed simp
  then show ?case by simp
next
  case (Suc fuel)
  have step: "\<exists>res. tableRowsStep (Suc fuel) c d (\<lambda>d'. getTableRows (Suc fuel) c d') prevRows row = Some res"
    if row: "row \<in> set (data d)" for prevRows row
  proof (cases "isExpandable row \<and> isExpanded (expandedRows d) (key row) \<and> formatChildrenData d \<noteq> None")
    case False
    then show ?thesis by (auto simp: tableRowsStep_def)
  next
    case True
    then obtain g where fmt: "formatChildrenData d = Some g" by auto
    from Suc.prems(2) [OF fmt] have g: "notDeeper g" .
    from Suc.prems(1) row have "depth row \<le> Suc fuel" by simp
    from handleSpecificTypeRowData_returns [OF g this, of c] obtain res
      where res: "handleSpecificTypeRowData (Suc fuel) c row g = Some res"
        and kids: "\<forall>h. res = Inr h \<longrightarrow> (\<forall>y \<in> set (formattedChildren h). depth y < depth row)"
      by blast
    show ?thesis
    proof (cases res)
      case (Inl e)
      with True fmt res show ?thesis by (simp add: tableRowsStep_def)
    next
      case (Inr h)
      let ?d' = "d\<lparr>data := formattedChildren h, nestedLevel := nestedLevel d + 1\<rparr>"
      from kids Inr \<open>depth row \<le> Suc fuel\<close> have "\<forall>y \<in> set (data ?d'). depth y \<le> fuel"
        by auto
      from Suc.IH [OF this] Suc.prems(2) obtain res' where "getTableRows (Suc fuel) c ?d' = Some res'"
        by auto
      with True fmt res Inr show ?thesis
        by (auto simp: tableRowsStep_def Let_def split: sum.splits)
    qed
  qed
  show ?case
    unfolding getTableRows.simps(2) [of "Suc fuel"] by (rule reduceRows_returns) (rule step)
qed

section \<open>The collapsed table\<close>

text \<open>
  C2. With an empty expansion state the materializer returns, for rows of any depth,
  exactly one table row for each row of the input, in the order of the input and at the
  nesting level of the call: no opener, no closer, no child row and no \<^verbatim>\<open>null\<close>.
\<close>

theorem getTableRows_collapsed:
  "getTableRows (Suc fuel) c (d\<lparr>expandedRows := []\<rparr>)
     = Some (Inr (map (\<lambda>row. Some (TableRow row (nestedLevel d))) (data d)))"
proof -
  have "tableRowsStep fuel c (d\<lparr>expandedRows := []\<rparr>) recur
        = (\<lambda>prevRows row. Some (Inr (prevRows @ [Some (TableRow row (nestedLevel d))])))" for recur
    by (intro ext) (simp add: tableRowsStep_def isExpanded_def)
  then show ?thesis
    by (simp add: reduceRows_collapsed)
qed

section \<open>Toggling a key\<close>

text \<open>
  C3. After the click on the button of key \<open>k\<close>, \<open>k\<close> is expanded exactly if it was not
  before; after a second click every key \<open>j\<close> is expanded exactly if it was at the start.
\<close>

theorem handleExpandButton_toggles:
  "isExpanded (fst (handleExpandButton onExpand onCollapse rowValues rows k)) k = (\<not> isExpanded rows k)
   \<and> (\<forall>j. isExpanded
            (fst (handleExpandButton onExpand onCollapse rowValues
                   (fst (handleExpandButton onExpand onCollapse rowValues rows k)) k)) j
          = isExpanded rows j)"
  by (auto simp: handleExpandButton_def isExpanded_def Let_def)

section \<open>Arrays of arrays\<close>

lemma arrayLayers_arrayNest:
  "arrayNest c g n row \<Longrightarrow> n \<le> fuel \<Longrightarrow>
   \<exists>last. arrayLayers fuel c g row k = Some (Inr (last, k + n)) \<and> kind last = Some (ARRAY_KIND c)"
proof (induction n arbitrary: row fuel k)
  case 0
  then show ?case by simp
next
  case (Suc n)
  from Suc.prems(2) obtain fuel' where fuel: "fuel = Suc fuel'" and le: "n \<le> fuel'"
    by (cases fuel) auto
  from Suc.prems(1) obtain first others where arr: "kind row = Some (ARRAY_KIND c)"
    and fc: "getFormattedChildrenData row g = Inr (first # others)"
    and first: "if isExpandable first then arrayNest c g n first
                else if kind first = Some (ARRAY_KIND c) then n = 1 else n = 0"
    by (auto split: sum.splits list.splits)
  show ?case
  proof (cases "isExpandable first")
    case False
    with first arr fc fuel show ?thesis
      by (auto simp: arrayLayers.simps [of "Suc fuel'"] split: if_splits)
  next
    case True
    with first have nest: "arrayNest c g n first" by simp
    from Suc.IH [OF nest le, of "k + 1"] obtain last
      where "arrayLayers fuel' c g first (k + 1) = Some (Inr (last, k + 1 + n))"
        and "kind last = Some (ARRAY_KIND c)" by blast
    with arr fc fuel True show ?thesis
      by (simp add: arrayLayers.simps [of "Suc fuel'"])
  qed
qed

text \<open>
  C1, as the code has it. Take an expandable row with its key in the expansion state
  whose unwrapping starts at \<open>n\<close> array layers over scalar elements; the unwrapping
  starts at the formatted type metadata of the row, or at the row itself when it has
  none. The table has a formatter and at least one column, and the array kind is not
  the map kind. Whatever else the expansion state holds, with fuel for the \<open>n\<close> layers
  the materializer returns three rows: the row itself, one opener labelled with the
  array label and \<open>n\<close> opening brackets, and one closer labelled with \<open>n\<close> closing
  brackets. There is no row for an array layer and none for the scalar.
\<close>

theorem array_nest_rows:
  assumes start: "start = (case typeMetadata row of Some tm \<Rightarrow> g tm 0 | None \<Rightarrow> row)"
    and nest: "arrayNest c g n start"
    and expandable: "isExpandable row"
    and expanded: "key row \<in> set (expandedRows d)"
    and fmt: "formatChildrenData d = Some g"
    and cols: "columns d \<noteq> []"
    and kinds: "ARRAY_KIND c \<noteq> MAP_KIND c"
    and fuel: "n \<le> fuel"
  shows "\<exists>k. getTableRows (Suc fuel) c (d\<lparr>data := [row]\<rparr>) =
     Some (Inr [Some (TableRow row (nestedLevel d)),
                Some (OpenerRow k (ARRAY_LABEL c @ repeat (ARRAY_OPENER c) n) [] (nestedLevel d)
                       (length (columns d) - 1)),
                Some (CloserRow k [] (repeat (ARRAY_CLOSER c) n) (nestedLevel d)
                       (length (columns d) - 1))])"
proof -
  from nest have n: "0 < n" by (cases n) auto
  with fuel obtain fuel' where f': "fuel = Suc fuel'" by (cases fuel) auto
  from arrayLayers_arrayNest [OF nest fuel, of 0] obtain last
    where loop: "arrayLayers fuel c g start 0 = Some (Inr (last, n))"
      and last: "kind last = Some (ARRAY_KIND c)" by auto
  have h: "handleSpecificTypeRowData fuel c row g =
      Some (Inr \<lparr>rowValuesToDisplay = last, formattedChildren = [], arrayCount = n\<rparr>)"
    using loop last by (simp add: handleSpecificTypeRowData_def start)
  have colcount: "nat (int (length (columns d)) - 1) = length (columns d) - 1"
    and nonneg: "\<not> int (length (columns d)) - 1 < 0"
    using cols by (cases "columns d"; simp)+
  have op: "getSpecificTypeOpenerRow c last n (nestedLevel d) (int (length (columns d)) - 1) =
      Inr (Some (OpenerRow (key last) (ARRAY_LABEL c @ repeat (ARRAY_OPENER c) n) [] (nestedLevel d)
                       (length (columns d) - 1)))"
    using n last kinds nonneg by (simp add: getSpecificTypeOpenerRow_def colcount)
  have cl: "getSpecificTypeCloserRow c last n (nestedLevel d) (int (length (columns d)) - 1) =
      Inr (Some (CloserRow (key last) [] (repeat (ARRAY_CLOSER c) n) (nestedLevel d)
                       (length (columns d) - 1)))"
    using n last kinds nonneg by (simp add: getSpecificTypeCloserRow_def colcount)
  have "getTableRows (Suc fuel) c (d\<lparr>data := [row]\<rparr>) =
     Some (Inr [Some (TableRow row (nestedLevel d)),
                Some (OpenerRow (key last) (ARRAY_LABEL c @ repeat (ARRAY_OPENER c) n) [] (nestedLevel d)
                       (length (columns d) - 1)),
                Some (CloserRow (key last) [] (repeat (ARRAY_CLOSER c) n) (nestedLevel d)
                       (length (columns d) - 1))])"
    using expandable expanded fmt h op cl
    by (simp add: tableRowsStep_def isExpanded_def f')
  then show ?thesis by blast
qed

text \<open>
  The theorem at an array whose elements are arrays without a row for their elements:
  two layers, and two brackets on either side.
\<close>

theorem array_nest_rows_witness:
  "gridRow = (case typeMetadata gridRow of Some tm \<Rightarrow> keepRow tm 0 | None \<Rightarrow> gridRow) \<and>
   arrayNest specConstants keepRow 2 gridRow \<and> isExpandable gridRow \<and>
   key gridRow \<in> set (expandedRows (detailsOf [] [''grid''])) \<and>
   formatChildrenData (detailsOf [] [''grid'']) = Some keepRow \<and>
   columns (detailsOf [] [''grid'']) \<noteq> [] \<and>
   ARRAY_KIND specConstants \<noteq> MAP_KIND specConstants \<and>
   (\<exists>k. getTableRows 3 specConstants ((detailsOf [] [''grid''])\<lparr>data := [gridRow]\<rparr>) =
     Some (Inr [Some (TableRow gridRow 0),
                Some (OpenerRow k (''array'' @ repeat ''['' 2) [] 0 0),
                Some (CloserRow k [] (repeat '']'' 2) 0 0)]))"
proof -
  have 1: "gridRow = (case typeMetadata gridRow of Some tm \<Rightarrow> keepRow tm 0 | None \<Rightarrow> gridRow)"
    by (simp add: gridRow_def)
  have 2: "arrayNest specConstants keepRow 2 gridRow" by code_simp
  have 3: "isExpandable gridRow" by code_simp
  have 4: "key gridRow \<in> set (expandedRows (detailsOf [] [''grid'']))" by code_simp
  have 5: "formatChildrenData (detailsOf [] [''grid'']) = Some keepRow"
    by (simp add: detailsOf_def)
  have 6: "columns (detailsOf [] [''grid'']) \<noteq> []" by (simp add: detailsOf_def)
  have 7: "ARRAY_KIND specConstants \<noteq> MAP_KIND specConstants" by (simp add: specConstants_def)
  have 8: "(2::nat) \<le> 2" by simp
  from array_nest_rows [OF 1 2 3 4 5 6 7 8]
  have "\<exists>k. getTableRows 3 specConstants ((detailsOf [] [''grid''])\<lparr>data := [gridRow]\<rparr>) =
     Some (Inr [Some (TableRow gridRow 0),
                Some (OpenerRow k (''array'' @ repeat ''['' 2) [] 0 0),
                Some (CloserRow k [] (repeat '']'' 2) 0 0)])"
    by (simp add: specConstants_def detailsOf_def numeral_3_eq_3)
  with 1 2 3 4 5 6 7 show ?thesis by blast
qed

text \<open>
  C1 as the spec states it fails. The matrix column is two array layers deep over a
  scalar cell, and every key of the tree is in the expansion state. The output is the
  column, an opener with two brackets and a closer with two brackets: the claim's one
  display row for the terminal scalar is not there, and no row stands at level 1.
\<close>

theorem matrix_has_no_cell_row:
  "arrayNest specConstants keepRow 2 matrixColumn \<and>
   getTableRows 3 specConstants
     (detailsOf [matrixColumn] [''matrix'', ''matrix/row'', ''matrix/row/cell'']) =
     Some (Inr [Some (TableRow matrixColumn 0),
                Some (OpenerRow ''matrix/row'' ''array[['' [] 0 0),
                Some (CloserRow ''matrix/row'' [] '']]'' 0 0)]) \<and>
   tableRowsAt 1 [Some (TableRow matrixColumn 0),
                  Some (OpenerRow ''matrix/row'' ''array[['' [] 0 0),
                  Some (CloserRow ''matrix/row'' [] '']]'' 0 0)] = []"
  by code_simp

section \<open>Maps\<close>

lemma mapIndexed_two: "mapIndexed g [x, y] = [g x 0, g y 1]"
  by (simp add: mapIndexed_def upt_rec [of 0] upt_rec [of "Suc 0"] del: upt_Suc)

lemma setTitle_sel [simp]:
  "key (setTitle row t) = key row"
  "isExpandable (setTitle row t) = isExpandable row"
  "title (setTitle row t) = t"
  by (cases row; simp)+

text \<open>
  C4, as the code has it. Take an expandable row with its key in the expansion state
  whose unwrapping starts at a row of kind map (the formatted type metadata of the row, or
  the row itself when it has none) with exactly two formatted children, named by the
  internal names of the key and of the value; the two internal names differ, neither
  display name is an internal name, and the map kind is not the array kind. The options
  have a formatter and there is at least one column. Then whenever the materializer
  returns rows for the row, they are the row, the map opener, what the two children show
  and the map closer. The rows shown one level below the row are exactly two: the first
  child titled with the display name of the key and the second titled with that of the
  value, whether the children are expanded themselves or not. The materializer returns
  these rows as soon as it returns rows for the two children, and it does so when neither
  child is expanded. No internal name is the title of either child row.
\<close>

theorem map_children_titles:
  assumes start: "start = (case typeMetadata row of Some tm \<Rightarrow> g tm 0 | None \<Rightarrow> row)"
    and isMap: "kind start = Some (MAP_KIND c)"
    and ch: "getFormattedChildrenData start g = Inr [k, v]"
    and kname: "name k = Some (MAP_KEY_NAME c)"
    and vname: "name v = Some (MAP_VALUE_NAME c)"
    and names: "MAP_KEY_NAME c \<noteq> MAP_VALUE_NAME c"
    and display: "MAP_KEY_DISPLAY_NAME c \<notin> {MAP_KEY_NAME c, MAP_VALUE_NAME c}"
                 "MAP_VALUE_DISPLAY_NAME c \<notin> {MAP_KEY_NAME c, MAP_VALUE_NAME c}"
    and kinds: "ARRAY_KIND c \<noteq> MAP_KIND c"
    and expandable: "isExpandable row"
    and expanded: "key row \<in> set (expandedRows d)"
    and fmt: "formatChildrenData d = Some g"
    and cols: "columns d \<noteq> []"
    and keyRow: "keyRow = setTitle k (Some (MAP_KEY_DISPLAY_NAME c))"
    and valueRow: "valueRow = setTitle v (Some (MAP_VALUE_DISPLAY_NAME c))"
    and openerRow: "openerRow =
          Some (OpenerRow (key start) [] (MAP_LABEL c @ MAP_OPENER c) (nestedLevel d)
                 (length (columns d) - 1))"
    and closerRow: "closerRow =
          Some (CloserRow (key start) (MAP_CLOSER c) [] (nestedLevel d) (length (columns d) - 1))"
  shows "(\<forall>fuel out. getTableRows fuel c (d\<lparr>data := [row]\<rparr>) = Some (Inr out) \<longrightarrow>
            (\<exists>inner. out = Some (TableRow row (nestedLevel d)) # openerRow # inner @ [closerRow] \<and>
                      tableRowsAt (Suc (nestedLevel d)) inner = [keyRow, valueRow]) \<and>
            tableRowsAt (Suc (nestedLevel d)) out = [keyRow, valueRow]) \<and>
         (\<forall>fuel inner.
            getTableRows fuel c (d\<lparr>data := [keyRow, valueRow], nestedLevel := Suc (nestedLevel d)\<rparr>) =
              Some (Inr inner) \<longrightarrow>
            getTableRows (Suc fuel) c (d\<lparr>data := [row]\<rparr>) =
              Some (Inr (Some (TableRow row (nestedLevel d)) # openerRow # inner @ [closerRow]))) \<and>
         (\<forall>fuel.
            \<not> (isExpandable k \<and> key k \<in> set (expandedRows d)) \<and>
            \<not> (isExpandable v \<and> key v \<in> set (expandedRows d)) \<longrightarrow>
            getTableRows (Suc (Suc fuel)) c (d\<lparr>data := [row]\<rparr>) =
              Some (Inr [Some (TableRow row (nestedLevel d)), openerRow,
                         Some (TableRow keyRow (Suc (nestedLevel d))),
                         Some (TableRow valueRow (Suc (nestedLevel d))), closerRow])) \<and>
         title keyRow = Some (MAP_KEY_DISPLAY_NAME c) \<and>
         title valueRow = Some (MAP_VALUE_DISPLAY_NAME c) \<and>
         title keyRow \<notin> {Some (MAP_KEY_NAME c), Some (MAP_VALUE_NAME c)} \<and>
         title valueRow \<notin> {Some (MAP_KEY_NAME c), Some (MAP_VALUE_NAME c)}"
proof -
  let ?d' = "d\<lparr>data := [keyRow, valueRow], nestedLevel := Suc (nestedLevel d)\<rparr>"
  from isMap kinds have notArray: "kind start \<noteq> Some (ARRAY_KIND c)" by auto
  have loop: "arrayLayers fuel c g start 0 = Some (Inr (start, 0))" for fuel
    using notArray by (simp add: arrayLayers.simps)
  have upd: "updateMapDisplayNames c [k, v] = [keyRow, valueRow]"
    using kname vname names by (simp add: updateMapDisplayNames_def keyRow valueRow)
  have h: "handleSpecificTypeRowData fuel c row g =
      Some (Inr \<lparr>rowValuesToDisplay = start, formattedChildren = [keyRow, valueRow],
                 arrayCount = 0\<rparr>)" for fuel
    using notArray isMap upd loop ch by (simp add: handleSpecificTypeRowData_def start [symmetric])
  have colcount: "nat (int (length (columns d)) - 1) = length (columns d) - 1"
    and nonneg: "\<not> int (length (columns d)) - 1 < 0"
    using cols by (cases "columns d"; simp)+
  have op: "getSpecificTypeOpenerRow c start 0 (nestedLevel d) (int (length (columns d)) - 1) =
      Inr openerRow"
    using isMap nonneg by (simp add: getSpecificTypeOpenerRow_def colcount openerRow)
  have cl: "getSpecificTypeCloserRow c start 0 (nestedLevel d) (int (length (columns d)) - 1) =
      Inr closerRow"
    using isMap nonneg by (simp add: getSpecificTypeCloserRow_def colcount closerRow)
  have step: "getTableRows (Suc fuel) c (d\<lparr>data := [row]\<rparr>) =
      (case getTableRows fuel c ?d' of
         None \<Rightarrow> None
       | Some (Inl e) \<Rightarrow> Some (Inl e)
       | Some (Inr inner) \<Rightarrow>
           Some (Inr (Some (TableRow row (nestedLevel d)) # openerRow # inner @ [closerRow])))" for fuel
    using expandable expanded fmt h op cl
    by (simp add: tableRowsStep_def isExpanded_def split: option.splits sum.splits)
  have shape: "(\<exists>inner. out = Some (TableRow row (nestedLevel d)) # openerRow # inner @ [closerRow] \<and>
                      tableRowsAt (Suc (nestedLevel d)) inner = [keyRow, valueRow]) \<and>
            tableRowsAt (Suc (nestedLevel d)) out = [keyRow, valueRow]"
    if ret: "getTableRows fuel c (d\<lparr>data := [row]\<rparr>) = Some (Inr out)" for fuel out
  proof (cases fuel)
    case 0
    with ret show ?thesis by simp
  next
    case (Suc fuel')
    with ret step [of fuel'] obtain inner where kids: "getTableRows fuel' c ?d' = Some (Inr inner)"
      and out: "out = Some (TableRow row (nestedLevel d)) # openerRow # inner @ [closerRow]"
      by (auto split: option.splits sum.splits)
    from getTableRows_level_rows [OF kids]
    have lv: "tableRowsAt (Suc (nestedLevel d)) inner = [keyRow, valueRow]" by simp
    with out have "tableRowsAt (Suc (nestedLevel d)) out = [keyRow, valueRow]"
      by (simp add: openerRow closerRow)
    with out lv show ?thesis by blast
  qed
  have returns: "getTableRows (Suc fuel) c (d\<lparr>data := [row]\<rparr>) =
              Some (Inr (Some (TableRow row (nestedLevel d)) # openerRow # inner @ [closerRow]))"
    if "getTableRows fuel c ?d' = Some (Inr inner)" for fuel inner
    using that by (simp only: step) simp
  have collapsed: "getTableRows (Suc (Suc fuel)) c (d\<lparr>data := [row]\<rparr>) =
              Some (Inr [Some (TableRow row (nestedLevel d)), openerRow,
                         Some (TableRow keyRow (Suc (nestedLevel d))),
                         Some (TableRow valueRow (Suc (nestedLevel d))), closerRow])"
    if "\<not> (isExpandable k \<and> key k \<in> set (expandedRows d)) \<and>
        \<not> (isExpandable v \<and> key v \<in> set (expandedRows d))" for fuel
  proof -
    have "getTableRows (Suc fuel) c ?d' =
        Some (Inr [Some (TableRow keyRow (Suc (nestedLevel d))),
                   Some (TableRow valueRow (Suc (nestedLevel d)))])"
      using that by (auto simp add: tableRowsStep_def isExpanded_def keyRow valueRow)
    from returns [OF this] show ?thesis by simp
  qed
  have titles: "title keyRow = Some (MAP_KEY_DISPLAY_NAME c) \<and>
         title valueRow = Some (MAP_VALUE_DISPLAY_NAME c) \<and>
         title keyRow \<notin> {Some (MAP_KEY_NAME c), Some (MAP_VALUE_NAME c)} \<and>
         title valueRow \<notin> {Some (MAP_KEY_NAME c), Some (MAP_VALUE_NAME c)}"
    using display by (simp add: keyRow valueRow)
  from shape returns collapsed titles show ?thesis by blast
qed

text \<open>
  The theorem at the sample map row whose value is a struct, with the map and its value
  expanded: the two children become \<open>Key\<close> and \<open>Value\<close>, and the field of the value is shown
  below them.
\<close>

theorem map_children_titles_witness:
  "kind labelsRow = Some (MAP_KIND specConstants) \<and>
   getFormattedChildrenData labelsRow keepRow = Inr [labelsKey, labelsValue] \<and>
   name labelsKey = Some (MAP_KEY_NAME specConstants) \<and>
   name labelsValue = Some (MAP_VALUE_NAME specConstants) \<and>
   isExpandable labelsRow \<and>
   getTableRows 3 specConstants
     ((detailsOf [] [''labels'', ''labels/_map_value''])\<lparr>data := [labelsRow]\<rparr>) =
     Some (Inr [Some (TableRow labelsRow 0),
                Some (OpenerRow ''labels'' [] ''map{'' 0 0),
                Some (TableRow (setTitle labelsKey (Some ''Key'')) 1),
                Some (TableRow (setTitle labelsValue (Some ''Value'')) 1),
                None,
                Some (TableRow labelsOwner 2),
                None,
                Some (CloserRow ''labels'' ''}'' [] 0 0)]) \<and>
   tableRowsAt 1
     [Some (TableRow labelsRow 0),
      Some (OpenerRow ''labels'' [] ''map{'' 0 0),
      Some (TableRow (setTitle labelsKey (Some ''Key'')) 1),
      Some (TableRow (setTitle labelsValue (Some ''Value'')) 1),
      None,
      Some (TableRow labelsOwner 2),
      None,
      Some (CloserRow ''labels'' ''}'' [] 0 0)] =
     [setTitle labelsKey (Some ''Key''), setTitle labelsValue (Some ''Value'')] \<and>
   title (setTitle labelsKey (Some ''Key'')) = Some ''Key'' \<and>
   title (setTitle labelsValue (Some ''Value'')) = Some ''Value''"
proof -
  let ?d = "detailsOf [] [''labels'', ''labels/_map_value'']"
  let ?out = "[Some (TableRow labelsRow 0),
      Some (OpenerRow ''labels'' [] ''map{'' 0 0),
      Some (TableRow (setTitle labelsKey (Some ''Key'')) 1),
      Some (TableRow (setTitle labelsValue (Some ''Value'')) 1),
      None,
      Some (TableRow labelsOwner 2),
      None,
      Some (CloserRow ''labels'' ''}'' [] 0 0)]"
  have 0: "labelsRow = (case typeMetadata labelsRow of Some tm \<Rightarrow> keepRow tm 0 | None \<Rightarrow> labelsRow)"
    by (simp add: labelsRow_def)
  have 1: "kind labelsRow = Some (MAP_KIND specConstants)" by code_simp
  have 2: "getFormattedChildrenData labelsRow keepRow = Inr [labelsKey, labelsValue]" by code_simp
  have 3: "name labelsKey = Some (MAP_KEY_NAME specConstants)" by code_simp
  have 4: "name labelsValue = Some (MAP_VALUE_NAME specConstants)" by code_simp
  have 5: "MAP_KEY_NAME specConstants \<noteq> MAP_VALUE_NAME specConstants"
    by (simp add: specConstants_def)
  have 6: "MAP_KEY_DISPLAY_NAME specConstants \<notin> {MAP_KEY_NAME specConstants, MAP_VALUE_NAME specConstants}"
    by (simp add: specConstants_def)
  have 7: "MAP_VALUE_DISPLAY_NAME specConstants \<notin> {MAP_KEY_NAME specConstants, MAP_VALUE_NAME specConstants}"
    by (simp add: specConstants_def)
  have 8: "ARRAY_KIND specConstants \<noteq> MAP_KIND specConstants" by (simp add: specConstants_def)
  have 9: "isExpandable labelsRow" by code_simp
  have 10: "key labelsRow \<in> set (expandedRows ?d)" by code_simp
  have 11: "formatChildrenData ?d = Some keepRow" by (simp add: detailsOf_def)
  have 12: "columns ?d \<noteq> []" by (simp add: detailsOf_def)
  have 13: "setTitle labelsKey (Some ''Key'') =
      setTitle labelsKey (Some (MAP_KEY_DISPLAY_NAME specConstants))"
    by (simp add: specConstants_def)
  have 14: "setTitle labelsValue (Some ''Value'') =
      setTitle labelsValue (Some (MAP_VALUE_DISPLAY_NAME specConstants))"
    by (simp add: specConstants_def)
  have 15: "Some (OpenerRow ''labels'' [] ''map{'' 0 0) =
      Some (OpenerRow (key labelsRow) [] (MAP_LABEL specConstants @ MAP_OPENER specConstants)
              (nestedLevel ?d) (length (columns ?d) - 1))"
    by (simp add: specConstants_def detailsOf_def labelsRow_def)
  have 16: "Some (CloserRow ''labels'' ''}'' [] 0 0) =
      Some (CloserRow (key labelsRow) (MAP_CLOSER specConstants) [] (nestedLevel ?d)
              (length (columns ?d) - 1))"
    by (simp add: specConstants_def detailsOf_def labelsRow_def)
  have run: "getTableRows 3 specConstants (?d\<lparr>data := [labelsRow]\<rparr>) = Some (Inr ?out)"
    by code_simp
  have lvl: "nestedLevel ?d = 0" by (simp add: detailsOf_def)
  note inst = map_children_titles [OF 0 1 2 3 4 5 6 7 8 9 10 11 12 13 14 15 16]
  from inst [THEN conjunct1, rule_format, OF run, THEN conjunct2]
  have "tableRowsAt (Suc (nestedLevel ?d)) ?out =
          [setTitle labelsKey (Some ''Key''), setTitle labelsValue (Some ''Value'')]" .
  then have rows: "tableRowsAt 1 ?out =
          [setTitle labelsKey (Some ''Key''), setTitle labelsValue (Some ''Value'')]"
    by (simp only: lvl One_nat_def)
  from inst [THEN conjunct2, THEN conjunct2, THEN conjunct2, THEN conjunct1]
  have "title (setTitle labelsKey (Some ''Key'')) = Some (MAP_KEY_DISPLAY_NAME specConstants)" .
  then have keyTitle: "title (setTitle labelsKey (Some ''Key'')) = Some ''Key''"
    by (simp add: specConstants_def)
  from inst [THEN conjunct2, THEN conjunct2, THEN conjunct2, THEN conjunct2, THEN conjunct1]
  have "title (setTitle labelsValue (Some ''Value'')) = Some (MAP_VALUE_DISPLAY_NAME specConstants)" .
  then have valueTitle: "title (setTitle labelsValue (Some ''Value'')) = Some ''Value''"
    by (simp add: specConstants_def)
  show ?thesis
    by (intro conjI 1 2 3 4 9 run rows keyTitle valueTitle)
qed

text \<open>
  C4 as the spec states it fails, for the sample map row with its key in the expansion
  state. When the options have no formatter the row is shown collapsed, with no child
  row; and when the table has no column, the opener row cannot be built and the
  materializer throws.
\<close>

theorem map_row_without_formatter_or_column:
  "getTableRows 2 specConstants
     \<lparr>data = [attrsRow], columns = [nameColumn], expandedRows = [''attrs''],
      formatChildrenData = None, nestedLevel = 0\<rparr> =
     Some (Inr [Some (TableRow attrsRow 0)]) \<and>
   getTableRows 2 specConstants
     \<lparr>data = [attrsRow], columns = [], expandedRows = [''attrs''],
      formatChildrenData = Some keepRow, nestedLevel = 0\<rparr> =
     Some (Inl RangeError)"
  by code_simp

section \<open>Rows without children\<close>

text \<open>
  C7 fails on the code. Take a row that is marked expandable and has neither type
  metadata nor children, with its key in the expansion state and a formatter in the
  options. The materializer does not return the parent row without children:
  \<^verbatim>\<open>getFormattedChildrenData\<close> reads \<^verbatim>\<open>item.children.map\<close> on \<^verbatim>\<open>undefined\<close>, and the call
  throws a \<^verbatim>\<open>TypeError\<close>, whatever the kind of the row is.
\<close>

theorem expanded_row_without_children_throws:
  assumes "isExpandable row" and "key row \<in> set (expandedRows d)"
    and "formatChildrenData d = Some g"
    and "typeMetadata row = None" and "children row = None"
  shows "getTableRows (Suc (Suc fuel)) c (d\<lparr>data := [row]\<rparr>) = Some (Inl TypeError)"
proof -
  have "arrayLayers (Suc fuel) c g row 0 =
      (if kind row = Some (ARRAY_KIND c) then Some (Inl TypeError) else Some (Inr (row, 0)))"
    using assms by (simp add: arrayLayers.simps getFormattedChildrenData_def)
  then have "handleSpecificTypeRowData (Suc fuel) c row g = Some (Inl TypeError)"
    using assms by (simp add: handleSpecificTypeRowData_def getFormattedChildrenData_def)
  with assms show ?thesis
    by (simp add: tableRowsStep_def isExpanded_def)
qed

text \<open>The theorem at the sample row without children.\<close>

theorem orphan_row_throws:
  "isExpandable orphanRow \<and> key orphanRow \<in> set (expandedRows (detailsOf [] [''a''])) \<and>
   typeMetadata orphanRow = None \<and> children orphanRow = None \<and>
   getTableRows 2 specConstants ((detailsOf [] [''a''])\<lparr>data := [orphanRow]\<rparr>) = Some (Inl TypeError)"
proof -
  have 1: "isExpandable orphanRow" by code_simp
  have 2: "key orphanRow \<in> set (expandedRows (detailsOf [] [''a'']))" by code_simp
  have 3: "formatChildrenData (detailsOf [] [''a'']) = Some keepRow" by (simp add: detailsOf_def)
  have 4: "typeMetadata orphanRow = None" by code_simp
  have 5: "children orphanRow = None" by code_simp
  from expanded_row_without_children_throws [OF 1 2 3 4 5, of 0 specConstants]
  have "getTableRows 2 specConstants ((detailsOf [] [''a''])\<lparr>data := [orphanRow]\<rparr>) = Some (Inl TypeError)"
    by (simp only: numeral_2_eq_2)
  with 1 2 4 5 show ?thesis by simp
qed

section \<open>Validation of the data\<close>

lemma checkIfValidData_iff:
  "checkIfValidData rows fs \<longleftrightarrow> (\<forall>f \<in> set fs. \<exists>row \<in> set rows. fieldIsDefined f row)"
  by (induction fs) (auto simp: list_ex_iff)

lemma getFormattedChildrenData_error: "getFormattedChildrenData row g = Inl e \<Longrightarrow> e = TypeError"
  by (auto simp: getFormattedChildrenData_def split: option.splits)

lemma arrayLayers_error: "arrayLayers fuel c g row n = Some (Inl e) \<Longrightarrow> e = TypeError"
proof (induction fuel arbitrary: row n)
  case 0
  then show ?case by (simp add: arrayLayers.simps split: if_splits)
next
  case (Suc fuel)
  from Suc.prems show ?case
    by (auto simp: arrayLayers.simps [of "Suc fuel"] split: if_splits sum.splits list.splits
        dest: getFormattedChildrenData_error Suc.IH)
qed

lemma handleSpecificTypeRowData_error:
  "handleSpecificTypeRowData fuel c row g = Some (Inl e) \<Longrightarrow> e = TypeError"
  by (auto simp: handleSpecificTypeRowData_def Let_def
      split: option.splits sum.splits if_splits prod.splits
      dest: arrayLayers_error getFormattedChildrenData_error)

lemma brackets_error:
  "getSpecificTypeOpenerRow c row n lvl k = Inl e \<Longrightarrow> e = RangeError"
  "getSpecificTypeCloserRow c row n lvl k = Inl e \<Longrightarrow> e = RangeError"
  by (auto simp: getSpecificTypeOpenerRow_def getSpecificTypeCloserRow_def Let_def split: if_splits)

lemma reduceRows_error:
  "reduceRows step acc xs = Some (Inl e) \<Longrightarrow> \<exists>prevRows x. x \<in> set xs \<and> step prevRows x = Some (Inl e)"
proof (induction xs arbitrary: acc)
  case Nil
  then show ?case by simp
next
  case (Cons x xs)
  then show ?case
    by (fastforce split: option.splits sum.splits)
qed

lemma getTableRows_error: "getTableRows fuel c d = Some (Inl e) \<Longrightarrow> e = TypeError \<or> e = RangeError"
proof (induction fuel arbitrary: d)
  case 0
  then show ?case by simp
next
  case (Suc fuel)
  from Suc.prems have "reduceRows (tableRowsStep fuel c d (\<lambda>d'. getTableRows fuel c d')) [] (data d) = Some (Inl e)"
    by simp
  from reduceRows_error [OF this] obtain prevRows row
    where "tableRowsStep fuel c d (\<lambda>d'. getTableRows fuel c d') prevRows row = Some (Inl e)"
    by blast
  then show ?case
    by (auto simp: tableRowsStep_def Let_def split: if_splits option.splits sum.splits
        dest: handleSpecificTypeRowData_error brackets_error Suc.IH)
qed

lemma nextKeys_error:
  "nextKeys fuel m c target ks re r = Some (Inl e) \<Longrightarrow> e = SyntaxError"
  by (induction fuel m c target ks re r rule: nextKeys.induct) auto

lemma useTableHooks_error:
  "useTableHooks fuel m c rows maxNumRows target tableKey = Some (Inl e) \<Longrightarrow> e = SyntaxError"
  by (auto simp: useTableHooks_def getInitialExpandedRows_def getKeysToExpand_def Let_def
      split: if_splits option.splits list.splits dest: nextKeys_error)

lemma distinct_ownProperties: "distinct (map fst (ownProperties row))"
  unfolding ownProperties_def by (rule distinct_clearjunk)

lemma cells_of_key:
  "distinct (map fst xs) \<Longrightarrow>
   map snd (filter (\<lambda>(k, v). k = f) xs) = (case map_of xs f of None \<Rightarrow> [] | Some v \<Rightarrow> [v])"
proof (induction xs)
  case Nil
  then show ?case by simp
next
  case (Cons a xs)
  obtain k v where a: "a = (k, v)" by (cases a)
  show ?case
  proof (cases "k = f")
    case True
    with Cons.prems a have "\<forall>x \<in> set xs. \<not> (case x of (k', v') \<Rightarrow> k' = f)" by force
    then have "filter (\<lambda>(k, v). k = f) xs = []" by (simp add: filter_empty_conv)
    with True a show ?thesis by simp
  next
    case False
    with Cons a show ?thesis by simp
  qed
qed

text \<open>The cells that a row shows for the field of a column.\<close>

lemma tableRowCells_field:
  assumes "col \<in> set cols"
  shows "map snd (filter (\<lambda>(k, v). k = field col) (tableRowCells cols row)) =
     (case map_of (ownProperties row) (field col) of None \<Rightarrow> [] | Some v \<Rightarrow> [v])"
proof -
  from assms have "filter (\<lambda>(k, v). k = field col) (tableRowCells cols row) =
      filter (\<lambda>(k, v). k = field col) (ownProperties row)"
    unfolding tableRowCells_def filter_filter by (intro filter_cong) auto
  with cells_of_key [OF distinct_ownProperties, of "field col" row] show ?thesis by simp
qed




section \<open>The keys of all rows\<close>

lemma walked_Nil: "\<not> walked [] r"
proof
  assume "walked [] r"
  then show False by (induction rule: walked.induct) auto
qed

lemma walked_mono: "walked xs r \<Longrightarrow> set xs \<subseteq> set ys \<Longrightarrow> walked ys r"
  by (induction rule: walked.induct) (auto intro: walked.intros)

lemma walked_below: "walked (walkedChildren col) r \<Longrightarrow> col \<in> set cols \<Longrightarrow> walked cols r"
  by (induction rule: walked.induct) (auto intro: walked.intros)

lemma walked_Cons:
  "walked (col # rest) r \<longleftrightarrow> r = col \<or> walked (walkedChildren col) r \<or> walked rest r"
proof
  assume "walked (col # rest) r"
  then show "r = col \<or> walked (walkedChildren col) r \<or> walked rest r"
    by (induction rule: walked.induct) (auto intro: walked.intros)
next
  assume "r = col \<or> walked (walkedChildren col) r \<or> walked rest r"
  then show "walked (col # rest) r"
    by (auto intro: walked.intros walked_below elim: walked_mono)
qed

text \<open>
  C8, as the code has it. The keys that \<^verbatim>\<open>getAllColumnKeys\<close> returns are exactly the keys
  of the walked rows: every column, and below a walked row the children of its type
  metadata or, when there are none, its own children. Whether a row is expandable plays
  no part, so the key of every expandable walked row is in the result, and so is the key
  of every walked row that is not expandable.
\<close>

theorem getAllColumnKeys_walked:
  "set (getAllColumnKeys cols) = key ` {r. walked cols r}"
proof (induction cols rule: getAllColumnKeys.induct)
  case 1
  then show ?case by (simp add: walked_Nil)
next
  case (2 col rest)
  have "{r. walked (col # rest) r} = {col} \<union> {r. walked (walkedChildren col) r} \<union> {r. walked rest r}"
    by (auto simp: walked_Cons)
  with 2 show ?case by (simp add: image_Un)
qed

text \<open>
  The theorem at the addresses column: the keys of the column, of the struct below its
  type metadata and of the field of the struct; the key of the type metadata is not one
  of them.
\<close>

theorem getAllColumnKeys_walked_witness:
  "getAllColumnKeys [addressesColumn] = [''addresses'', ''addresses/elem'', ''addresses/elem/city''] \<and>
   key ` {r. walked [addressesColumn] r} = {''addresses'', ''addresses/elem'', ''addresses/elem/city''}"
proof -
  have 1: "getAllColumnKeys [addressesColumn] =
      [''addresses'', ''addresses/elem'', ''addresses/elem/city'']"
    by code_simp
  from getAllColumnKeys_walked [of "[addressesColumn]"] 1 show ?thesis by auto
qed

text \<open>
  C8 as the spec states it fails. A table with one plain column: the column is not
  expandable and has nothing below it, so the tree has no expandable row, and yet the
  key of the column is in the result.
\<close>

theorem plain_column_key_is_collected:
  "getAllColumnKeys [soloColumn] = [''t/a''] \<and> \<not> isExpandable soloColumn \<and>
   walkedChildren soloColumn = []"
  by code_simp

section \<open>The initial expansion\<close>

text \<open>
  The loop from a match on: when the next expressions match the keys \<open>ks\<close> one after the
  other and the one after them does not, the loop ends after as many rounds, with the
  keys appended or with the error of the last match.
\<close>

lemma nextKeys_run:
  assumes "\<forall>i < length ks. m target (re @ concat (replicate i (COLUMN_NAME_REGEX c))) = Matched (ks ! i)"
    and "m target (re @ concat (replicate (length ks) (COLUMN_NAME_REGEX c))) = final"
    and "final = NoMatch \<or> final = BadPattern"
  shows "nextKeys fuel m c target acc re (m target re) =
           (if length ks \<le> fuel
            then (if final = NoMatch then Some (Inr (acc @ ks)) else Some (Inl SyntaxError))
            else None)"
  using assms
proof (induction ks arbitrary: fuel acc re)
  case Nil
  then show ?case by auto
next
  case (Cons k ks)
  from Cons.prems(1) have first: "m target re = Matched k" by force
  show ?case
  proof (cases fuel)
    case 0
    with first show ?thesis by simp
  next
    case (Suc fuel')
    have "\<forall>i < length ks.
        m target ((re @ COLUMN_NAME_REGEX c) @ concat (replicate i (COLUMN_NAME_REGEX c))) =
        Matched (ks ! i)"
    proof (intro allI impI)
      fix i assume "i < length ks"
      with Cons.prems(1) [rule_format, of "Suc i"]
      show "m target ((re @ COLUMN_NAME_REGEX c) @ concat (replicate i (COLUMN_NAME_REGEX c))) =
          Matched (ks ! i)"
        by simp
    qed
    moreover from Cons.prems(2)
    have "m target ((re @ COLUMN_NAME_REGEX c) @ concat (replicate (length ks) (COLUMN_NAME_REGEX c))) =
        final"
      by simp
    ultimately have "nextKeys fuel' m c target (acc @ [k]) (re @ COLUMN_NAME_REGEX c)
        (m target (re @ COLUMN_NAME_REGEX c)) =
        (if length ks \<le> fuel'
         then (if final = NoMatch then Some (Inr ((acc @ [k]) @ ks)) else Some (Inl SyntaxError))
         else None)"
      using Cons.prems(3) by (rule Cons.IH)
    with first Suc show ?thesis by simp
  qed
qed

text \<open>When every next expression matches, the loop uses up any fuel.\<close>

lemma nextKeys_forever:
  assumes "\<forall>i. \<exists>k. m target (re @ concat (replicate i (COLUMN_NAME_REGEX c))) = Matched k"
  shows "nextKeys fuel m c target acc re (m target re) = None"
  using assms
proof (induction fuel arbitrary: acc re)
  case 0
  from "0.prems" [rule_format, of 0] obtain k where "m target re = Matched k" by auto
  then show ?case by simp
next
  case (Suc fuel)
  from Suc.prems [rule_format, of 0] obtain k where first: "m target re = Matched k" by auto
  have "\<forall>i. \<exists>k. m target ((re @ COLUMN_NAME_REGEX c) @ concat (replicate i (COLUMN_NAME_REGEX c))) =
      Matched k"
  proof
    fix i
    from Suc.prems [rule_format, of "Suc i"]
    show "\<exists>k. m target ((re @ COLUMN_NAME_REGEX c) @ concat (replicate i (COLUMN_NAME_REGEX c))) =
        Matched k"
      by simp
  qed
  then have "nextKeys fuel m c target (acc @ [k]) (re @ COLUMN_NAME_REGEX c)
      (m target (re @ COLUMN_NAME_REGEX c)) = None"
    by (rule Suc.IH)
  with first show ?case by simp
qed

lemma getKeysToExpand_target:
  assumes "target \<noteq> []"
  shows "getKeysToExpand fuel m c (Some target) tableKey =
     (if m target (columnKeyRegex c tableKey) = BadPattern then Some (Inl SyntaxError)
      else nextKeys fuel m c target
             (case m target (columnKeyRegex c tableKey) of Matched k \<Rightarrow> [k] | _ \<Rightarrow> [])
             (nextKeyRegex c tableKey 0) (m target (nextKeyRegex c tableKey 0)))"
  using assms
  by (cases target) (simp_all add: getKeysToExpand_def columnKeyRegex_def nextKeyRegex_def Let_def)

text \<open>
  C5, as the code has it. When there are more keys than the configured maximum, the
  initial expansion is derived from the deep-link target alone. It is empty when no target
  is supplied, or the target is the empty text. For any other target it is the list of
  the path-prefix keys that the successive patterns match in the target: the match of
  the column pattern, if it has one, and then the matches \<open>ks\<close> of the pattern of the type
  metadata and of that pattern extended by one, two, ... column names, up to the first
  of them that has no match; the loop needs a round for each of these keys. With \<open>ks\<close>
  empty and no match of the column pattern the initial expansion is empty. When the
  column pattern or the first pattern after the matches is no regular expression, the
  error is thrown, and when every extended pattern matches, the loop does not end. The
  keys are never compared with all the keys: an empty initial expansion is not all the
  keys when the maximum is not negative, and a path can well be all the keys.
\<close>

theorem initial_rows_over_maximum:
  assumes over: "mx < int (length allColumnKeys)"
  shows "(target = None \<or> target = Some [] \<longrightarrow>
            getInitialExpandedRows fuel m c rows allColumnKeys (Some mx) target tableKey =
              Some (Inr [])) \<and>
         (\<forall>t ks. target = Some t \<and> t \<noteq> [] \<and>
              m t (columnKeyRegex c tableKey) \<noteq> BadPattern \<and>
              (\<forall>i < length ks. m t (nextKeyRegex c tableKey i) = Matched (ks ! i)) \<and>
              m t (nextKeyRegex c tableKey (length ks)) = NoMatch \<longrightarrow>
            getInitialExpandedRows fuel m c rows allColumnKeys (Some mx) target tableKey =
              (if length ks \<le> fuel
               then Some (Inr ((case m t (columnKeyRegex c tableKey) of Matched k \<Rightarrow> [k] | _ \<Rightarrow> [])
                               @ ks))
               else None)) \<and>
         (\<forall>t. target = Some t \<and> t \<noteq> [] \<and> m t (columnKeyRegex c tableKey) = BadPattern \<longrightarrow>
            getInitialExpandedRows fuel m c rows allColumnKeys (Some mx) target tableKey =
              Some (Inl SyntaxError)) \<and>
         (\<forall>t ks. target = Some t \<and> t \<noteq> [] \<and>
              m t (columnKeyRegex c tableKey) \<noteq> BadPattern \<and>
              (\<forall>i < length ks. m t (nextKeyRegex c tableKey i) = Matched (ks ! i)) \<and>
              m t (nextKeyRegex c tableKey (length ks)) = BadPattern \<longrightarrow>
            getInitialExpandedRows fuel m c rows allColumnKeys (Some mx) target tableKey =
              (if length ks \<le> fuel then Some (Inl SyntaxError) else None)) \<and>
         (\<forall>t. target = Some t \<and> t \<noteq> [] \<and>
              m t (columnKeyRegex c tableKey) \<noteq> BadPattern \<and>
              (\<forall>i. \<exists>k. m t (nextKeyRegex c tableKey i) = Matched k) \<longrightarrow>
            getInitialExpandedRows fuel m c rows allColumnKeys (Some mx) target tableKey = None) \<and>
         (0 \<le> mx \<longrightarrow> allColumnKeys \<noteq> [])"
proof -
  have branch: "getInitialExpandedRows fuel m c rows allColumnKeys (Some mx) target tableKey =
      getKeysToExpand fuel m c target tableKey"
    using over by (simp add: getInitialExpandedRows_def)
  have keys: "0 \<le> mx \<longrightarrow> allColumnKeys \<noteq> []"
    using over by auto
  have none: "getKeysToExpand fuel m c target tableKey = Some (Inr [])"
    if "target = None \<or> target = Some []"
    using that by (auto simp: getKeysToExpand_def)
  have bad: "getKeysToExpand fuel m c target tableKey = Some (Inl SyntaxError)"
    if "target = Some t \<and> t \<noteq> [] \<and> m t (columnKeyRegex c tableKey) = BadPattern" for t
    using that by (simp add: getKeysToExpand_target)
  have run: "getKeysToExpand fuel m c target tableKey =
      (if length ks \<le> fuel
       then (if final = NoMatch
             then Some (Inr ((case m t (columnKeyRegex c tableKey) of Matched k \<Rightarrow> [k] | _ \<Rightarrow> []) @ ks))
             else Some (Inl SyntaxError))
       else None)"
    if t: "target = Some t" "t \<noteq> []" "m t (columnKeyRegex c tableKey) \<noteq> BadPattern"
      and ks: "\<forall>i < length ks. m t (nextKeyRegex c tableKey i) = Matched (ks ! i)"
      and final: "m t (nextKeyRegex c tableKey (length ks)) = final" "final = NoMatch \<or> final = BadPattern"
    for t ks final
  proof -
    have 1: "\<forall>i < length ks.
        m t (nextKeyRegex c tableKey 0 @ concat (replicate i (COLUMN_NAME_REGEX c))) = Matched (ks ! i)"
      using ks by (simp add: nextKeyRegex_def)
    have 2: "m t (nextKeyRegex c tableKey 0 @ concat (replicate (length ks) (COLUMN_NAME_REGEX c))) = final"
      using final(1) by (simp add: nextKeyRegex_def)
    from t show ?thesis
      by (simp add: getKeysToExpand_target nextKeys_run [where m = m and target = t and c = c and ks = ks and
          re = "nextKeyRegex c tableKey 0", OF 1 2 final(2)])
  qed
  have forever: "getKeysToExpand fuel m c target tableKey = None"
    if t: "target = Some t \<and> t \<noteq> [] \<and> m t (columnKeyRegex c tableKey) \<noteq> BadPattern \<and>
      (\<forall>i. \<exists>k. m t (nextKeyRegex c tableKey i) = Matched k)" for t
  proof -
    from t have "\<forall>i. \<exists>k. m t (nextKeyRegex c tableKey 0 @ concat (replicate i (COLUMN_NAME_REGEX c))) =
        Matched k"
      by (simp add: nextKeyRegex_def)
    from nextKeys_forever [where m = m and target = t and c = c and
        re = "nextKeyRegex c tableKey 0", OF this] t show ?thesis
      by (simp add: getKeysToExpand_target)
  qed
  have matched: "getKeysToExpand fuel m c target tableKey =
      (if length ks \<le> fuel
       then Some (Inr ((case m t (columnKeyRegex c tableKey) of Matched k \<Rightarrow> [k] | _ \<Rightarrow> []) @ ks))
       else None)"
    if "target = Some t \<and> t \<noteq> [] \<and> m t (columnKeyRegex c tableKey) \<noteq> BadPattern \<and>
      (\<forall>i < length ks. m t (nextKeyRegex c tableKey i) = Matched (ks ! i)) \<and>
      m t (nextKeyRegex c tableKey (length ks)) = NoMatch" for t ks
    using that run [of t ks NoMatch] by simp
  have thrown: "getKeysToExpand fuel m c target tableKey =
      (if length ks \<le> fuel then Some (Inl SyntaxError) else None)"
    if "target = Some t \<and> t \<noteq> [] \<and> m t (columnKeyRegex c tableKey) \<noteq> BadPattern \<and>
      (\<forall>i < length ks. m t (nextKeyRegex c tableKey i) = Matched (ks ! i)) \<and>
      m t (nextKeyRegex c tableKey (length ks)) = BadPattern" for t ks
    using that run [of t ks BadPattern] by simp
  show ?thesis
    unfolding branch using keys none bad matched thrown forever by blast
qed

text \<open>
  The theorem at the nested deep link \<open>t/a/type/a/b\<close> of the sample table, which has three
  keys, with a maximum of two: the initial expansion is the column key, the key of its
  type metadata and the key of the field.
\<close>

theorem initial_rows_over_maximum_witness:
  "getAllColumnKeys [deepColumn] = [''t/a'', ''t/a/type/a/b'', ''t/a/type/a/c''] \<and>
   (2::int) < int (length (getAllColumnKeys [deepColumn])) \<and>
   deepMatch ''t/a/type/a/b'' (columnKeyRegex specConstants (Some ''t'')) = Matched ''t/a'' \<and>
   deepMatch ''t/a/type/a/b'' (nextKeyRegex specConstants (Some ''t'') 0) = Matched ''t/a/type/a'' \<and>
   deepMatch ''t/a/type/a/b'' (nextKeyRegex specConstants (Some ''t'') 1) = Matched ''t/a/type/a/b'' \<and>
   deepMatch ''t/a/type/a/b'' (nextKeyRegex specConstants (Some ''t'') 2) = NoMatch \<and>
   getInitialExpandedRows 2 deepMatch specConstants [deepColumn] (getAllColumnKeys [deepColumn])
     (Some 2) (Some ''t/a/type/a/b'') (Some ''t'') =
     Some (Inr [''t/a'', ''t/a/type/a'', ''t/a/type/a/b''])"
proof -
  let ?t = "''t/a/type/a/b''"
  let ?ks = "[''t/a/type/a'', ''t/a/type/a/b'']"
  have keys: "getAllColumnKeys [deepColumn] = [''t/a'', ''t/a/type/a/b'', ''t/a/type/a/c'']"
    by code_simp
  then have 1: "(2::int) < int (length (getAllColumnKeys [deepColumn]))" by simp
  have col: "deepMatch ?t (columnKeyRegex specConstants (Some ''t'')) = Matched ''t/a''"
    by code_simp
  have n0: "deepMatch ?t (nextKeyRegex specConstants (Some ''t'') 0) = Matched ''t/a/type/a''"
    by code_simp
  have n1: "deepMatch ?t (nextKeyRegex specConstants (Some ''t'') 1) = Matched ''t/a/type/a/b''"
    by code_simp
  have n2: "deepMatch ?t (nextKeyRegex specConstants (Some ''t'') 2) = NoMatch"
    by code_simp
  have final: "deepMatch ?t (nextKeyRegex specConstants (Some ''t'') (length ?ks)) = NoMatch"
    by code_simp
  have ne: "?t \<noteq> []" by simp
  from col have colok: "deepMatch ?t (columnKeyRegex specConstants (Some ''t'')) \<noteq> BadPattern"
    by simp
  have ks: "\<forall>i < length ?ks. deepMatch ?t (nextKeyRegex specConstants (Some ''t'') i) = Matched (?ks ! i)"
    using n0 n1 by (simp add: less_Suc_eq)
  have hyp: "Some ?t = Some ?t \<and> ?t \<noteq> [] \<and>
      deepMatch ?t (columnKeyRegex specConstants (Some ''t'')) \<noteq> BadPattern \<and>
      (\<forall>i < length ?ks. deepMatch ?t (nextKeyRegex specConstants (Some ''t'') i) = Matched (?ks ! i)) \<and>
      deepMatch ?t (nextKeyRegex specConstants (Some ''t'') (length ?ks)) = NoMatch"
    by (intro conjI refl ne colok ks final)
  note inst = initial_rows_over_maximum [OF 1, of "Some ?t" 2 deepMatch specConstants "[deepColumn]"
      "Some ''t''"]
  from inst [THEN conjunct2, THEN conjunct1, rule_format, where t = ?t and ks = ?ks, OF hyp]
  have "getInitialExpandedRows 2 deepMatch specConstants [deepColumn] (getAllColumnKeys [deepColumn])
     (Some 2) (Some ?t) (Some ''t'') =
     (if length ?ks \<le> 2
      then Some (Inr ((case deepMatch ?t (columnKeyRegex specConstants (Some ''t'')) of
                         Matched k \<Rightarrow> [k] | _ \<Rightarrow> []) @ ?ks))
      else None)" .
  then have result: "getInitialExpandedRows 2 deepMatch specConstants [deepColumn]
     (getAllColumnKeys [deepColumn]) (Some 2) (Some ?t) (Some ''t'') =
     Some (Inr [''t/a'', ''t/a/type/a'', ''t/a/type/a/b''])"
    by (simp add: col)
  show ?thesis
    by (intro conjI keys 1 col n0 n1 n2 result)
qed

text \<open>
  C5 as the spec states it fails. The table \<open>t\<close> has the single column \<open>t/a\<close>, the
  maximum is 0 and the deep link targets that column. There are more keys than the
  maximum, the matched path is the column key, and the initial expansion is the full key
  set.
\<close>

theorem solo_column_is_all_keys:
  "getAllColumnKeys [soloColumn] = [''t/a''] \<and>
   (0::int) < int (length (getAllColumnKeys [soloColumn])) \<and>
   getInitialExpandedRows 1 soloMatch specConstants [soloColumn] (getAllColumnKeys [soloColumn])
     (Some 0) (Some ''t/a'') (Some ''t'') = Some (Inr [''t/a''])"
  by code_simp

section \<open>Openers and closers\<close>

lemma nested_append:
  "nested c expanded g cols lvl xs \<Longrightarrow> nested c expanded g cols lvl ys \<Longrightarrow>
   nested c expanded g cols lvl (xs @ ys)"
proof (induction rule: nested.induct)
  case (nested_Nil lvl)
  then show ?case by simp
next
  case (nested_collapsed row lvl rest)
  then show ?case by (simp add: nested.nested_collapsed)
next
  case (nested_plain row f fuel h lvl inner rest)
  then have "nested c expanded g cols lvl (Some (TableRow row lvl) # None # inner @ None # (rest @ ys))"
    by (intro nested.nested_plain [of row expanded g f fuel c h]) auto
  then show ?case by simp
next
  case (nested_bracketed row f fuel h lvl inner rest)
  then have "nested c expanded g cols lvl
       (Some (TableRow row lvl)
        # Some (OpenerRow (key (rowValuesToDisplay h))
                 (if 0 < arrayCount h
                  then ARRAY_LABEL c @ repeat (ARRAY_OPENER c) (arrayCount h) else [])
                 (if kind (rowValuesToDisplay h) = Some (MAP_KIND c)
                  then MAP_LABEL c @ MAP_OPENER c else [])
                 lvl (length cols - 1))
        # inner
        @ Some (CloserRow (key (rowValuesToDisplay h))
                 (if kind (rowValuesToDisplay h) = Some (MAP_KIND c) then MAP_CLOSER c else [])
                 (if 0 < arrayCount h then repeat (ARRAY_CLOSER c) (arrayCount h) else [])
                 lvl (length cols - 1))
        # (rest @ ys))"
    by (intro nested.nested_bracketed [of row expanded g f fuel c h]) auto
  then show ?case by simp
qed

lemma nested_concat:
  "\<forall>seg \<in> set segs. nested c expanded g cols lvl seg \<Longrightarrow> nested c expanded g cols lvl (concat segs)"
  by (induction segs) (auto intro: nested_append nested_Nil)

lemma segment_nested:
  assumes IH: "\<And>d' out'. getTableRows fuel c d' = Some (Inr out') \<Longrightarrow>
      nested c (expandedRows d') (formatChildrenData d') (columns d') (nestedLevel d') out'"
    and seg: "tableRowsStep fuel c d (\<lambda>d'. getTableRows fuel c d') [] row = Some (Inr seg)"
  shows "nested c (expandedRows d) (formatChildrenData d) (columns d) (nestedLevel d) seg"
proof (cases "isExpandable row \<and> isExpanded (expandedRows d) (key row) \<and> formatChildrenData d \<noteq> None")
  case False
  with seg have "seg = [Some (TableRow row (nestedLevel d))]"
    by (auto simp: tableRowsStep_def Let_def)
  with False show ?thesis by (simp add: nested_collapsed nested_Nil)
next
  case True
  then obtain f where f: "formatChildrenData d = Some f" by auto
  let ?d' = "d\<lparr>data := formattedChildren h, nestedLevel := nestedLevel d + 1\<rparr>"
  from True seg obtain h openerRow closerRow childRows where
    h: "handleSpecificTypeRowData fuel c row (the (formatChildrenData d)) = Some (Inr h)"
    and op: "getSpecificTypeOpenerRow c (rowValuesToDisplay h) (arrayCount h) (nestedLevel d)
              (int (length (columns d)) - 1) = Inr openerRow"
    and cl: "getSpecificTypeCloserRow c (rowValuesToDisplay h) (arrayCount h) (nestedLevel d)
              (int (length (columns d)) - 1) = Inr closerRow"
    and kids: "getTableRows fuel c (d\<lparr>data := formattedChildren h, nestedLevel := nestedLevel d + 1\<rparr>)
              = Some (Inr childRows)"
    and out: "seg = [Some (TableRow row (nestedLevel d)), openerRow] @ childRows @ [closerRow]"
    by (auto simp: tableRowsStep_def Let_def split: option.splits sum.splits)
  from h f have hf: "handleSpecificTypeRowData fuel c row f = Some (Inr h)" by simp
  from IH [OF kids]
  have wk: "nested c (expandedRows d) (formatChildrenData d) (columns d) (Suc (nestedLevel d)) childRows"
    by simp
  from getTableRows_level_rows [OF kids]
  have lv: "tableRowsAt (Suc (nestedLevel d)) childRows = formattedChildren h" by simp
  let ?n = "arrayCount h" and ?isMap = "kind (rowValuesToDisplay h) = Some (MAP_KIND c)"
  from True have ex: "isExpandable row" and ed: "isExpanded (expandedRows d) (key row)" by auto
  from brackets_cases [OF op cl] show ?thesis
  proof
    assume a: "openerRow = None \<and> closerRow = None \<and> \<not> (0 < ?n \<or> ?isMap)"
    with out have sg: "seg = Some (TableRow row (nestedLevel d)) # None # childRows @ None # []"
      by simp
    from a have no: "\<not> (0 < ?n \<or> ?isMap)" by simp
    show ?thesis
      unfolding sg by (rule nested_plain [OF ex ed f hf no wk lv nested_Nil])
  next
    assume b: "(0 < ?n \<or> ?isMap) \<and> 0 \<le> int (length (columns d)) - 1 \<and>
      openerRow = Some (OpenerRow (key (rowValuesToDisplay h))
             (if 0 < ?n then ARRAY_LABEL c @ repeat (ARRAY_OPENER c) ?n else [])
             (if ?isMap then MAP_LABEL c @ MAP_OPENER c else [])
             (nestedLevel d) (nat (int (length (columns d)) - 1))) \<and>
      closerRow = Some (CloserRow (key (rowValuesToDisplay h))
             (if ?isMap then MAP_CLOSER c else [])
             (if 0 < ?n then repeat (ARRAY_CLOSER c) ?n else [])
             (nestedLevel d) (nat (int (length (columns d)) - 1)))"
    then have yes: "0 < ?n \<or> ?isMap" by simp
    from b have count: "nat (int (length (columns d)) - 1) = length (columns d) - 1" by simp
    from b out have sg: "seg = Some (TableRow row (nestedLevel d))
        # Some (OpenerRow (key (rowValuesToDisplay h))
             (if 0 < ?n then ARRAY_LABEL c @ repeat (ARRAY_OPENER c) ?n else [])
             (if ?isMap then MAP_LABEL c @ MAP_OPENER c else [])
             (nestedLevel d) (length (columns d) - 1))
        # childRows
        @ Some (CloserRow (key (rowValuesToDisplay h))
             (if ?isMap then MAP_CLOSER c else [])
             (if 0 < ?n then repeat (ARRAY_CLOSER c) ?n else [])
             (nestedLevel d) (length (columns d) - 1))
        # []"
      by (simp add: count)
    show ?thesis
      unfolding sg by (rule nested_bracketed [OF ex ed f hf yes wk lv nested_Nil])
  qed
qed

lemma getTableRows_nested:
  "getTableRows fuel c d = Some (Inr out) \<Longrightarrow>
   nested c (expandedRows d) (formatChildrenData d) (columns d) (nestedLevel d) out"
proof (induction fuel arbitrary: d out)
  case 0
  then show ?case by simp
next
  case (Suc fuel)
  let ?step = "tableRowsStep fuel c d (\<lambda>d'. getTableRows fuel c d')"
  from Suc.prems have "reduceRows ?step [] (data d) = Some (Inr out)" by simp
  from reduceRows_segments [of ?step, OF tableRowsStep_prevRows this]
  obtain segs where segs: "list_all2 (\<lambda>x seg. ?step [] x = Some (Inr seg)) (data d) segs"
    and out: "out = concat segs" by auto
  have "\<forall>seg \<in> set segs.
      nested c (expandedRows d) (formatChildrenData d) (columns d) (nestedLevel d) seg"
  proof
    fix seg assume "seg \<in> set segs"
    from list_all2_right_elem [OF segs this] obtain row where "?step [] row = Some (Inr seg)"
      by blast
    then show "nested c (expandedRows d) (formatChildrenData d) (columns d) (nestedLevel d) seg"
      by (rule segment_nested [rotated]) (rule Suc.IH)
  qed
  with out show ?case by (simp add: nested_concat)
qed

lemma arrayLayers_count:
  "arrayLayers fuel c g row n = Some (Inr (inner, m)) \<Longrightarrow>
   n \<le> m \<and> (n < m) = (kind row = Some (ARRAY_KIND c))"
proof (induction fuel arbitrary: row n)
  case 0
  then show ?case by (auto simp: arrayLayers.simps split: if_splits)
next
  case (Suc fuel)
  show ?case
  proof (cases "kind row = Some (ARRAY_KIND c)")
    case False
    with Suc.prems show ?thesis by (simp add: arrayLayers.simps)
  next
    case True
    with Suc.prems show ?thesis
      by (auto simp: arrayLayers.simps [of "Suc fuel"] split: sum.splits list.splits if_splits
          dest!: Suc.IH)
  qed
qed

lemma handleSpecificTypeRowData_count:
  "handleSpecificTypeRowData fuel c row g = Some (Inr h) \<Longrightarrow>
   (0 < arrayCount h) =
     (kind (case typeMetadata row of Some tm \<Rightarrow> g tm 0 | None \<Rightarrow> row) = Some (ARRAY_KIND c))"
  by (auto simp: handleSpecificTypeRowData_def Let_def
      split: option.splits sum.splits prod.splits if_splits dest!: arrayLayers_count)



section \<open>What an expanded key shows\<close>

lemma expanded_rows_show_children:
  assumes "getTableRows fuel c d = Some (Inr out)" and "Some (TableRow p l) \<in> set out"
    and "isExpandable p" and "isExpanded (expandedRows d) (key p)" and "formatChildrenData d \<noteq> None"
  shows "\<exists>h fuel'. handleSpecificTypeRowData fuel' c p (the (formatChildrenData d)) = Some (Inr h) \<and>
           (\<forall>r \<in> set (formattedChildren h). Some (TableRow r (Suc l)) \<in> set out)"
  using assms
proof (induction fuel arbitrary: d out)
  case 0
  then show ?case by simp
next
  case (Suc fuel)
  let ?step = "tableRowsStep fuel c d (\<lambda>d'. getTableRows fuel c d')"
  from Suc.prems(1) have "reduceRows ?step [] (data d) = Some (Inr out)" by simp
  from reduceRows_segments [of ?step, OF tableRowsStep_prevRows this]
  obtain segs where segs: "list_all2 (\<lambda>x seg. ?step [] x = Some (Inr seg)) (data d) segs"
    and out: "out = concat segs" by auto
  from Suc.prems(2) out obtain seg where seg: "seg \<in> set segs" and p: "Some (TableRow p l) \<in> set seg"
    by auto
  from list_all2_right_elem [OF segs seg]
  obtain row where row: "row \<in> set (data d)" and step: "?step [] row = Some (Inr seg)"
    by blast
  from seg out have sub: "set seg \<subseteq> set out" by auto
  show ?case
  proof (cases "isExpandable row \<and> isExpanded (expandedRows d) (key row) \<and> formatChildrenData d \<noteq> None")
    case False
    with step have "seg = [Some (TableRow row (nestedLevel d))]"
      by (auto simp: tableRowsStep_def Let_def)
    with p have "p = row" by simp
    with False Suc.prems(3,4,5) show ?thesis by simp
  next
    case True
    from True step obtain h openerRow closerRow childRows where
      h: "handleSpecificTypeRowData fuel c row (the (formatChildrenData d)) = Some (Inr h)"
      and op: "getSpecificTypeOpenerRow c (rowValuesToDisplay h) (arrayCount h) (nestedLevel d)
                (int (length (columns d)) - 1) = Inr openerRow"
      and cl: "getSpecificTypeCloserRow c (rowValuesToDisplay h) (arrayCount h) (nestedLevel d)
                (int (length (columns d)) - 1) = Inr closerRow"
      and kids: "getTableRows fuel c (d\<lparr>data := formattedChildren h, nestedLevel := nestedLevel d + 1\<rparr>)
                = Some (Inr childRows)"
      and sg: "seg = [Some (TableRow row (nestedLevel d)), openerRow] @ childRows @ [closerRow]"
      by (auto simp: tableRowsStep_def Let_def split: option.splits sum.splits)
    from sg sub have kidsub: "set childRows \<subseteq> set out" by auto
    from p sg opener_closer_not_TableRow(1) [OF op] opener_closer_not_TableRow(2) [OF cl]
    consider "p = row \<and> l = nestedLevel d" | "Some (TableRow p l) \<in> set childRows"
      by auto
    then show ?thesis
    proof cases
      case 1
      have "\<forall>r \<in> set (formattedChildren h). Some (TableRow r (Suc l)) \<in> set childRows"
        using data_rows_shown [OF kids] 1 by simp
      with kidsub h 1 show ?thesis by blast
    next
      case 2
      from Suc.IH [OF kids 2] Suc.prems(3,4,5)
      obtain h' fuel' where "handleSpecificTypeRowData fuel' c p (the (formatChildrenData d)) = Some (Inr h')"
        and "\<forall>r \<in> set (formattedChildren h'). Some (TableRow r (Suc l)) \<in> set childRows"
        by auto
      with kidsub show ?thesis by blast
    qed
  qed
qed

text \<open>
  C9, as the code has it. Whenever the materializer returns rows: a table row in the
  output is either a row of the data at the nesting level of the call, or it stands
  deeper and is one of the formatted children that the specific-type unwrapping gives
  for a row shown one level above it, a row that is expandable and whose key is in the
  expansion state; and every shown row that is expandable and has its key in the
  expansion state (with a formatter in the options) has all the formatted children of
  its unwrapping shown one level below it. The rows that the unwrapping passes through
  (the type metadata and the array layers) are not shown and their keys are not asked
  for.
\<close>

theorem shown_rows_have_expanded_parent:
  assumes "getTableRows fuel c d = Some (Inr out)"
  shows "(\<forall>r l. Some (TableRow r l) \<in> set out \<longrightarrow>
            (l = nestedLevel d \<and> r \<in> set (data d)) \<or>
            (nestedLevel d < l \<and>
             (\<exists>p h fuel'. Some (TableRow p (l - 1)) \<in> set out \<and> isExpandable p \<and>
                isExpanded (expandedRows d) (key p) \<and> formatChildrenData d \<noteq> None \<and>
                handleSpecificTypeRowData fuel' c p (the (formatChildrenData d)) = Some (Inr h) \<and>
                r \<in> set (formattedChildren h)))) \<and>
         (\<forall>p l. Some (TableRow p l) \<in> set out \<and> isExpandable p \<and>
                isExpanded (expandedRows d) (key p) \<and> formatChildrenData d \<noteq> None \<longrightarrow>
            (\<exists>h fuel'. handleSpecificTypeRowData fuel' c p (the (formatChildrenData d)) = Some (Inr h) \<and>
               (\<forall>r \<in> set (formattedChildren h). Some (TableRow r (Suc l)) \<in> set out)))"
proof (intro conjI allI impI)
  fix r l
  assume "Some (TableRow r l) \<in> set out"
  with assms show "(l = nestedLevel d \<and> r \<in> set (data d)) \<or>
            (nestedLevel d < l \<and>
             (\<exists>p h fuel'. Some (TableRow p (l - 1)) \<in> set out \<and> isExpandable p \<and>
                isExpanded (expandedRows d) (key p) \<and> formatChildrenData d \<noteq> None \<and>
                handleSpecificTypeRowData fuel' c p (the (formatChildrenData d)) = Some (Inr h) \<and>
                r \<in> set (formattedChildren h)))"
    by (rule shown_row_origin)
next
  fix p l
  assume "Some (TableRow p l) \<in> set out \<and> isExpandable p \<and>
          isExpanded (expandedRows d) (key p) \<and> formatChildrenData d \<noteq> None"
  with assms show "\<exists>h fuel'. handleSpecificTypeRowData fuel' c p (the (formatChildrenData d)) = Some (Inr h) \<and>
               (\<forall>r \<in> set (formattedChildren h). Some (TableRow r (Suc l)) \<in> set out)"
    by (intro expanded_rows_show_children) auto
qed

text \<open>
  The theorem at the expanded addresses column: the field below it is shown for the
  column, and the formatted children of the column's unwrapping are shown at level 1.
\<close>

theorem shown_rows_have_expanded_parent_witness:
  "getTableRows 3 specConstants (detailsOf [addressesColumn] [''addresses'']) =
     Some (Inr [Some (TableRow addressesColumn 0),
                Some (OpenerRow ''addresses/elem'' ''array['' [] 0 0),
                Some (TableRow cityField 1),
                Some (CloserRow ''addresses/elem'' [] '']'' 0 0)]) \<and>
   (\<exists>p h fuel'.
      Some (TableRow p 0) \<in> set [Some (TableRow addressesColumn 0),
                Some (OpenerRow ''addresses/elem'' ''array['' [] 0 0),
                Some (TableRow cityField 1),
                Some (CloserRow ''addresses/elem'' [] '']'' 0 0)] \<and>
      isExpandable p \<and> isExpanded [''addresses''] (key p) \<and>
      handleSpecificTypeRowData fuel' specConstants p keepRow = Some (Inr h) \<and>
      cityField \<in> set (formattedChildren h))"
proof -
  let ?out = "[Some (TableRow addressesColumn 0),
                Some (OpenerRow ''addresses/elem'' ''array['' [] 0 0),
                Some (TableRow cityField 1),
                Some (CloserRow ''addresses/elem'' [] '']'' 0 0)]"
  have 1: "getTableRows 3 specConstants (detailsOf [addressesColumn] [''addresses'']) = Some (Inr ?out)"
    by code_simp
  have 2: "Some (TableRow cityField 1) \<in> set ?out"
    by simp
  from shown_rows_have_expanded_parent [OF 1] 2
  have "(1 = nestedLevel (detailsOf [addressesColumn] [''addresses'']) \<and>
         cityField \<in> set (data (detailsOf [addressesColumn] [''addresses'']))) \<or>
        (nestedLevel (detailsOf [addressesColumn] [''addresses'']) < 1 \<and>
         (\<exists>p h fuel'. Some (TableRow p (1 - 1)) \<in> set ?out \<and> isExpandable p \<and>
            isExpanded (expandedRows (detailsOf [addressesColumn] [''addresses''])) (key p) \<and>
            formatChildrenData (detailsOf [addressesColumn] [''addresses'']) \<noteq> None \<and>
            handleSpecificTypeRowData fuel' specConstants p
              (the (formatChildrenData (detailsOf [addressesColumn] [''addresses'']))) = Some (Inr h) \<and>
            cityField \<in> set (formattedChildren h)))"
    by blast
  then have "\<exists>p h fuel'.
      Some (TableRow p 0) \<in> set ?out \<and>
      isExpandable p \<and> isExpanded [''addresses''] (key p) \<and>
      handleSpecificTypeRowData fuel' specConstants p keepRow = Some (Inr h) \<and>
      cityField \<in> set (formattedChildren h)"
    by (simp add: detailsOf_def)
  with 1 show ?thesis by blast
qed

text \<open>
  C9 as the spec states it fails. Only the key of the addresses column is in the
  expansion state. The field \<open>city\<close> stands three levels below the column (type
  metadata, struct, field) and is shown, although neither the key of the type metadata
  nor the key of the struct is in the expansion state.
\<close>

theorem struct_field_shown_below_collapsed_layers:
  "typeMetadata addressesColumn = Some addressesType \<and>
   children addressesType = Some [addressStruct] \<and>
   children addressStruct = Some [cityField] \<and>
   key addressesType \<notin> set [''addresses''] \<and>
   key addressStruct \<notin> set [''addresses''] \<and>
   getTableRows 3 specConstants (detailsOf [addressesColumn] [''addresses'']) =
     Some (Inr [Some (TableRow addressesColumn 0),
                Some (OpenerRow ''addresses/elem'' ''array['' [] 0 0),
                Some (TableRow cityField 1),
                Some (CloserRow ''addresses/elem'' [] '']'' 0 0)])"
  by code_simp

end
